theory Spec2Isabelle
  imports
    Main
    "HOL-Library.List_Lexorder"
    "HOL-Library.FSet"
    "HOL-Library.AList"
    "HOL-Library.Multiset"
    "HOL-Library.Word"
begin

section \<open>Strings, exceptions and the libraries the program calls\<close>

text \<open>
  A Python \<open>str\<close> is a sequence of Unicode code points, so it is modelled as a list of
  natural numbers (\<open>len\<close> counts code points, \<open>ord\<close> is the element itself). The order
  of \<open>HOL-Library.List_Lexorder\<close> is Python's string comparison: code point by code
  point, a proper prefix first. \<open>py ''btn''\<close> writes an ASCII literal.
\<close>

type_synonym pystr = "nat list"

definition py :: "string \<Rightarrow> pystr" where
  "py cs = map of_char cs"

lemma py_eq_iff [simp]: "(py a = py b) = (a = b)"
proof -
  have "inj (of_char :: char \<Rightarrow> nat)" by (rule injI) simp
  then show ?thesis by (simp add: py_def inj_map_eq_map)
qed

lemma py_eq_Nil [simp]: "(py a = []) = (a = [])" "([] = py a) = (a = [])"
  by (auto simp: py_def)

text \<open>
  Exceptions are values; each carries the text that \<open>str(e)\<close> gives. \<open>OtherError\<close>
  stands for whatever a library raises (an \<open>OSError\<close>, a parser's error, \<open>re.error\<close>).
\<close>

datatype exn =
    ValueError pystr
  | TypeError pystr
  | UnicodeEncodeError pystr
  | OtherError pystr

fun str_exn :: "exn \<Rightarrow> pystr" where
  "str_exn (ValueError m) = m"
| "str_exn (TypeError m) = m"
| "str_exn (UnicodeEncodeError m) = m"
| "str_exn (OtherError m) = m"

text \<open>The dataclass \<open>ClassMapping\<close>.\<close>

record ClassMapping =
  original :: pystr
  obfuscated :: pystr

text \<open>
  What \<open>tinycss2.parse_stylesheet\<close> returns, as far as \<open>extract_classes_from_css\<close>
  looks at it: rules with a \<open>type\<close>, qualified rules with a \<open>prelude\<close> of component
  values, of which only \<open>ident\<close> tokens and \<open>literal\<close> tokens are told apart.
\<close>

datatype css_node = IdentToken pystr | LiteralToken pystr | OtherNode

datatype css_rule = QualifiedRule "css_node list" | OtherRule

text \<open>
  The tree of \<open>bs4\<close>: a \<open>Tag\<close> has a name, its attributes in the order of the
  dictionary \<open>attrs\<close> (a value is a string, or a list of tokens for the multi-valued
  attributes \<open>class\<close>, \<open>rel\<close>, ...) and its contents; a \<open>NavigableString\<close> is text.
  A \<open>BeautifulSoup\<close> object is the list of its top-level nodes.
\<close>

datatype attr_value = AStr pystr | AList "pystr list"

datatype node = Tag pystr "(pystr \<times> attr_value) list" "node list" | NavigableString pystr

type_synonym soup = "node list"

text \<open>
  The libraries are parameters of the model: the Unicode database behind \<open>str.isalpha\<close>,
  \<open>str.isupper\<close> and the \<open>\w\<close> of \<open>re\<close> (for the code points from 128 on; ASCII is
  written out below), \<open>hashlib.md5\<close> (the 128-bit digest of a byte string), the template
  language of \<open>re.sub\<close> (used only for a replacement that holds a backslash; its arguments
  are the replacement and the matched text), \<open>tinycss2\<close>, \<open>BeautifulSoup\<close> with \<open>lxml\<close>,
  and \<open>pathlib\<close>.
\<close>

record pylib =
  uc_alpha :: "nat \<Rightarrow> bool"
  uc_upper :: "nat \<Rightarrow> bool"
  uc_alnum :: "nat \<Rightarrow> bool"
  md5_digest :: "nat list \<Rightarrow> 128 word"
  re_template :: "pystr \<Rightarrow> pystr \<Rightarrow> exn + pystr"
  parse_stylesheet :: "pystr \<Rightarrow> exn + css_rule list"
  soup_parse :: "pystr \<Rightarrow> exn + soup"
  soup_str :: "soup \<Rightarrow> pystr"
  path_name :: "pystr \<Rightarrow> pystr"
  path_stem :: "pystr \<Rightarrow> pystr"
  path_suffix :: "pystr \<Rightarrow> pystr"
  path_sibling :: "pystr \<Rightarrow> pystr \<Rightarrow> pystr"

definition ascii_upper :: "nat \<Rightarrow> bool" where
  "ascii_upper c = (65 \<le> c \<and> c \<le> 90)"

definition ascii_lower :: "nat \<Rightarrow> bool" where
  "ascii_lower c = (97 \<le> c \<and> c \<le> 122)"

definition ascii_digit :: "nat \<Rightarrow> bool" where
  "ascii_digit c = (48 \<le> c \<and> c \<le> 57)"

definition isalpha :: "pylib \<Rightarrow> nat \<Rightarrow> bool" where
  "isalpha L c = (if c < 128 then ascii_upper c \<or> ascii_lower c else uc_alpha L c)"

definition isupper :: "pylib \<Rightarrow> nat \<Rightarrow> bool" where
  "isupper L c = (if c < 128 then ascii_upper c else uc_upper L c)"

definition isalnum :: "pylib \<Rightarrow> nat \<Rightarrow> bool" where
  "isalnum L c =
     (if c < 128 then ascii_upper c \<or> ascii_lower c \<or> ascii_digit c else uc_alnum L c)"

subsection \<open>Numbers and bytes as text\<close>

text \<open>\<open>str(n)\<close> of a non-negative integer: its decimal digits.\<close>

fun str_nat :: "nat \<Rightarrow> pystr" where
  "str_nat n = (if n < 10 then [48 + n] else str_nat (n div 10) @ [48 + n mod 10])"

declare str_nat.simps [simp del]

definition hexdigit :: "nat \<Rightarrow> nat" where
  "hexdigit d = (if d < 10 then 48 + d else 87 + d)"

text \<open>\<open>hex_fixed k v\<close>: the last \<open>k\<close> lowercase hexadecimal digits of \<open>v\<close>.\<close>

fun hex_fixed :: "nat \<Rightarrow> nat \<Rightarrow> pystr" where
  "hex_fixed 0 v = []"
| "hex_fixed (Suc k) v = hex_fixed k (v div 16) @ [hexdigit (v mod 16)]"

text \<open>\<open>hexdigest()\<close> of an MD5 object: the 16 bytes of the digest as 32 hexadecimal digits.\<close>

definition hexdigest :: "128 word \<Rightarrow> pystr" where
  "hexdigest w = hex_fixed 32 (unat w)"

text \<open>\<open>bytes.hex()\<close>: two digits for each byte.\<close>

definition bytes_hex :: "nat list \<Rightarrow> pystr" where
  "bytes_hex bs = concat (map (hex_fixed 2) bs)"

text \<open>
  \<open>str.encode('utf-8')\<close>. A surrogate code point cannot be encoded: Python raises
  \<open>UnicodeEncodeError\<close>, whose text names the first run of surrogates.
\<close>

definition is_surrogate :: "nat \<Rightarrow> bool" where
  "is_surrogate c = (55296 \<le> c \<and> c \<le> 57343)"

definition utf8_char :: "nat \<Rightarrow> nat list" where
  "utf8_char c =
     (if c < 128 then [c]
      else if c < 2048 then [192 + c div 64, 128 + c mod 64]
      else if c < 65536 then [224 + c div 4096, 128 + (c div 64) mod 64, 128 + c mod 64]
      else [240 + c div 262144, 128 + (c div 4096) mod 64, 128 + (c div 64) mod 64,
            128 + c mod 64])"

definition surrogate_message :: "pystr \<Rightarrow> pystr" where
  "surrogate_message s =
     (let start = length (takeWhile (\<lambda>c. \<not> is_surrogate c) s);
          run = length (takeWhile is_surrogate (drop start s));
          codec = [39] @ py ''utf-8'' @ [39] @ py '' codec can'' @ [39] @ py ''t encode ''
      in if run = 1
         then codec @ py ''character '' @ [39, 92, 117] @ hex_fixed 4 (s ! start) @ [39]
              @ py '' in position '' @ str_nat start @ py '': surrogates not allowed''
         else codec @ py ''characters in position '' @ str_nat start
              @ py ''-'' @ str_nat (start + run - 1) @ py '': surrogates not allowed'')"

definition encode_utf8 :: "pystr \<Rightarrow> exn + nat list" where
  "encode_utf8 s =
     (if list_ex is_surrogate s then Inl (UnicodeEncodeError (surrogate_message s))
      else Inr (concat (map utf8_char s)))"

section \<open>Identifier Transform: \<open>obfuscate_identifier\<close>\<close>

text \<open>
  The loop of the method \<open>shift\<close>: \<open>for char in identifier\<close>, with \<open>shift\<close> the length
  of the whole identifier. The arithmetic is Python's, on integers.
\<close>

fun shift_chars :: "pylib \<Rightarrow> nat \<Rightarrow> pystr \<Rightarrow> pystr" where
  "shift_chars L shift [] = []"
| "shift_chars L shift (char # rest) =
     (if isalpha L char
      then (let base = (if isupper L char then 65 else 97)
            in nat (base + (int char - base + int shift) mod 26)) # shift_chars L shift rest
      else char # shift_chars L shift rest)"

definition obfuscate_identifier :: "pylib \<Rightarrow> pystr \<Rightarrow> pystr \<Rightarrow> exn + pystr" where
  "obfuscate_identifier L identifier method =
     (if identifier = [] then Inr identifier
      else if method = py ''shift'' then
        Inr (shift_chars L (length identifier) identifier)
      else if method = py ''hash'' then
        (case encode_utf8 identifier of
           Inl e \<Rightarrow> Inl e
         | Inr bs \<Rightarrow> Inr (py ''c'' @ take 8 (hexdigest (md5_digest L bs))))
      else if method = py ''hex'' then
        (case encode_utf8 identifier of
           Inl e \<Rightarrow> Inl e
         | Inr bs \<Rightarrow> Inr (py ''c'' @ bytes_hex bs))
      else Inl (ValueError (py ''Unknown obfuscation method: '' @ [39] @ method @ [39])))"

section \<open>Mapping Builder: \<open>build_class_mapping\<close>\<close>

lemma str_nat_nonempty: "str_nat n \<noteq> []"
  by (subst str_nat.simps) simp

lemma str_nat_small: "n < 10 \<Longrightarrow> str_nat n = [48 + n]"
  by (subst str_nat.simps) simp

lemma str_nat_large: "\<not> n < 10 \<Longrightarrow> str_nat n = str_nat (n div 10) @ [48 + n mod 10]"
  by (subst str_nat.simps) simp

lemma str_nat_inj: "str_nat n = str_nat m \<Longrightarrow> n = m"
proof (induction n arbitrary: m rule: str_nat.induct)
  case (1 n)
  show ?case
  proof (cases "n < 10")
    case True
    note n = str_nat_small [OF True]
    show ?thesis
    proof (cases "m < 10")
      case True
      from str_nat_small [OF True] n "1.prems" show ?thesis by simp
    next
      case False
      from str_nat_large [OF False] n "1.prems" str_nat_nonempty [of "m div 10"]
      show ?thesis by (cases "str_nat (m div 10)") auto
    qed
  next
    case False
    note n = str_nat_large [OF False]
    show ?thesis
    proof (cases "m < 10")
      case True
      from str_nat_small [OF True] n "1.prems" str_nat_nonempty [of "n div 10"]
      show ?thesis by (cases "str_nat (n div 10)") auto
    next
      case large: False
      from str_nat_large [OF large] n "1.prems"
      have a: "str_nat (n div 10) = str_nat (m div 10)" and b: "n mod 10 = m mod 10"
        by auto
      from "1.IH" [OF False a] have "n div 10 = m div 10" .
      with b show ?thesis by (metis div_mult_mod_eq)
    qed
  qed
qed

text \<open>The candidate \<open>f"{original_obfuscated}_{counter}"\<close>.\<close>

definition suffixed :: "pystr \<Rightarrow> nat \<Rightarrow> pystr" where
  "suffixed original_obfuscated counter = original_obfuscated @ py ''_'' @ str_nat counter"

lemma suffixed_inj: "suffixed r j = suffixed r k \<Longrightarrow> j = k"
  by (simp add: suffixed_def str_nat_inj)

lemma finite_suffixed_used: "finite {k. suffixed r k |\<in>| used}"
proof -
  have "inj (suffixed r)"
    by (rule injI) (rule suffixed_inj)
  then have "finite (suffixed r -` fset used)"
    by (intro finite_vimageI) simp_all
  then show ?thesis by (simp add: vimage_def)
qed

text \<open>
  The loop \<open>while obfuscated in used_names\<close>. \<open>used_names\<close> is a finite set and the
  candidates are pairwise different, so the loop ends: each round leaves fewer counters
  from \<open>counter\<close> on whose candidate is in use.
\<close>

function unique_name :: "pystr fset \<Rightarrow> pystr \<Rightarrow> pystr \<Rightarrow> nat \<Rightarrow> pystr" where
  "unique_name used_names original_obfuscated obf counter =
     (if obf |\<in>| used_names
      then unique_name used_names original_obfuscated
             (suffixed original_obfuscated counter) (counter + 1)
      else obf)"
  by pat_completeness auto
termination
proof (relation "measure (\<lambda>(used, r, obf, counter).
    2 * card {k. counter \<le> k \<and> suffixed r k |\<in>| used} + (if obf |\<in>| used then 1 else 0))")
  show "wf (measure (\<lambda>(used, r, obf, counter).
    2 * card {k. counter \<le> k \<and> suffixed r k |\<in>| used} + (if obf |\<in>| used then 1 else 0)))"
    by simp
next
  fix used_names :: "pystr fset" and original_obfuscated obf :: pystr and counter :: nat
  assume inuse: "obf |\<in>| used_names"
  let ?A = "{k. counter \<le> k \<and> suffixed original_obfuscated k |\<in>| used_names}"
  let ?B = "{k. counter + 1 \<le> k \<and> suffixed original_obfuscated k |\<in>| used_names}"
  have fin: "finite ?A"
    by (rule finite_subset [OF _ finite_suffixed_used [of original_obfuscated used_names]]) auto
  have sub: "?B \<subseteq> ?A" by auto
  show "((used_names, original_obfuscated, suffixed original_obfuscated counter, counter + 1),
         (used_names, original_obfuscated, obf, counter))
        \<in> measure (\<lambda>(used, r, obf, counter).
            2 * card {k. counter \<le> k \<and> suffixed r k |\<in>| used}
            + (if obf |\<in>| used then 1 else 0))"
  proof (cases "suffixed original_obfuscated counter |\<in>| used_names")
    case True
    then have "counter \<in> ?A" and "counter \<notin> ?B" by auto
    with sub have "?B \<subset> ?A" by blast
    with fin have "card ?B < card ?A" by (rule psubset_card_mono)
    with inuse True show ?thesis by simp
  next
    case False
    from fin sub have "card ?B \<le> card ?A" by (rule card_mono)
    with inuse False show ?thesis by simp
  qed
qed

declare unique_name.simps [simp del]

text \<open>
  The body of \<open>for class_name in sorted(all_classes)\<close>, on the state
  \<open>(mappings, used_names)\<close>; an exception of \<open>obfuscate_identifier\<close> ends the loop.
  (\<open>obf\<close> is the source's variable \<open>obfuscated\<close>, which is a field name here.)
\<close>

fun mapping_loop ::
  "pylib \<Rightarrow> pystr \<Rightarrow> pystr set \<Rightarrow> pystr list \<Rightarrow> ClassMapping list \<times> pystr fset
     \<Rightarrow> exn + ClassMapping list \<times> pystr fset" where
  "mapping_loop L method exclude [] (mappings, used_names) = Inr (mappings, used_names)"
| "mapping_loop L method exclude (class_name # rest) (mappings, used_names) =
     (if class_name = [] \<or> class_name \<in> exclude
      then mapping_loop L method exclude rest (mappings, used_names)
      else
        (case obfuscate_identifier L class_name method of
           Inl e \<Rightarrow> Inl e
         | Inr original_obfuscated \<Rightarrow>
             (let obf = unique_name used_names original_obfuscated original_obfuscated 1
              in mapping_loop L method exclude rest
                   (mappings @ [\<lparr>original = class_name, obfuscated = obf\<rparr>],
                    finsert obf used_names))))"

text \<open>
  \<open>sorted(xs, key=k, reverse=True)\<close>: CPython reverses the list, sorts it stably by the
  key in ascending order, and reverses the result, so equal keys keep their order.
\<close>

definition sorted_reverse :: "('a \<Rightarrow> nat) \<Rightarrow> 'a list \<Rightarrow> 'a list" where
  "sorted_reverse k xs = rev (sort_key k (rev xs))"

definition build_class_mapping ::
  "pylib \<Rightarrow> pystr fset \<Rightarrow> pystr \<Rightarrow> pystr set option \<Rightarrow> exn + ClassMapping list" where
  "build_class_mapping L all_classes method exclude_opt =
     (let exclude = (case exclude_opt of None \<Rightarrow> {} | Some e \<Rightarrow> e)
      in case mapping_loop L method exclude (sorted_list_of_fset all_classes) ([], {||}) of
           Inl e \<Rightarrow> Inl e
         | Inr (mappings, used_names) \<Rightarrow>
             Inr (sorted_reverse (\<lambda>x. length (original x)) mappings))"

section \<open>Content Rewriter: \<open>process_css_content\<close>\<close>

text \<open>
  The \<open>\w\<close> of \<open>re\<close> on a \<open>str\<close> pattern: alphanumeric or the underscore.
\<close>

definition is_word :: "pylib \<Rightarrow> nat \<Rightarrow> bool" where
  "is_word L c = (isalnum L c \<or> c = 95)"

text \<open>
  \<open>\b\<close> after a match whose last character is \<open>final\<close> and before the rest of the
  text: exactly one of the two neighbours is a word character (the end of the text counts
  as none).
\<close>

definition boundary_after :: "pylib \<Rightarrow> nat \<Rightarrow> pystr \<Rightarrow> bool" where
  "boundary_after L final rest =
     (is_word L final \<noteq> (case rest of [] \<Rightarrow> False | c # cs \<Rightarrow> is_word L c))"

text \<open>
  The pattern \<open>rf"\.{re.escape(mapping.original)}\b"\<close> at the start of a text: the dot and
  the original, literally (that is what \<open>re.escape\<close> is for), then a word boundary.
\<close>

definition pattern_matches :: "pylib \<Rightarrow> pystr \<Rightarrow> pystr \<Rightarrow> bool" where
  "pattern_matches L orig txt =
     (take (Suc (length orig)) txt = 46 # orig
      \<and> boundary_after L (last (46 # orig)) (drop (Suc (length orig)) txt))"

text \<open>
  \<open>re.sub(pattern, replacement, content)\<close> for that pattern: the text is scanned from the
  left, a match is replaced and the scan goes on behind it.
\<close>

fun re_sub :: "pylib \<Rightarrow> pystr \<Rightarrow> pystr \<Rightarrow> pystr \<Rightarrow> pystr" where
  "re_sub L orig replacement [] = []"
| "re_sub L orig replacement (c # cs) =
     (if pattern_matches L orig (c # cs)
      then replacement @ re_sub L orig replacement (drop (length orig) cs)
      else c # re_sub L orig replacement cs)"

text \<open>
  The loop \<open>for mapping in mappings\<close>. A replacement without a backslash is taken
  literally; one with a backslash goes through the template language of \<open>re\<close>, which may
  raise \<open>re.error\<close> (before any text is scanned).
\<close>

fun process_css_content :: "pylib \<Rightarrow> pystr \<Rightarrow> ClassMapping list \<Rightarrow> exn + pystr" where
  "process_css_content L content [] = Inr content"
| "process_css_content L content (mapping # rest) =
     (let replacement = py ''.'' @ obfuscated mapping
      in case (if 92 \<in> set replacement
               then re_template L replacement (py ''.'' @ original mapping)
               else Inr replacement) of
           Inl e \<Rightarrow> Inl e
         | Inr expansion \<Rightarrow>
             process_css_content L (re_sub L (original mapping) expansion content) rest)"

section \<open>Content Rewriter: \<open>process_html_content\<close>\<close>

text \<open>\<open>str.replace(old, new)\<close>: every occurrence, from the left, without overlap.\<close>

fun replace_scan :: "nat \<Rightarrow> pystr \<Rightarrow> pystr \<Rightarrow> pystr \<Rightarrow> pystr" where
  "replace_scan o1 os new [] = []"
| "replace_scan o1 os new (c # cs) =
     (if take (Suc (length os)) (c # cs) = o1 # os
      then new @ replace_scan o1 os new (drop (length os) cs)
      else c # replace_scan o1 os new cs)"

definition py_replace :: "pystr \<Rightarrow> pystr \<Rightarrow> pystr \<Rightarrow> pystr" where
  "py_replace s old new =
     (case old of
        [] \<Rightarrow> new @ concat (map (\<lambda>c. c # new) s)
      | o1 # os \<Rightarrow> replace_scan o1 os new s)"

text \<open>\<open>class_dict = {m.original: m.obfuscated for m in mappings}\<close>: a later mapping wins.\<close>

definition class_dict :: "ClassMapping list \<Rightarrow> (pystr \<rightharpoonup> pystr)" where
  "class_dict mappings = foldl (\<lambda>d m. d(original m \<mapsto> obfuscated m)) Map.empty mappings"

text \<open>The loop that fills \<open>css_file_mapping\<close>.\<close>

definition css_file_mapping :: "pylib \<Rightarrow> pystr list \<Rightarrow> pystr \<Rightarrow> (pystr \<rightharpoonup> pystr)" where
  "css_file_mapping L css_files output_suffix =
     foldl (\<lambda>d css_file.
              let base = path_name L css_file
              in d(base \<mapsto> path_stem L base @ output_suffix @ path_suffix L base))
       Map.empty css_files"

text \<open>
  How \<open>find_all\<close> compares an attribute with a string: a string value must be equal to
  it; of a list value one token, or the tokens joined by spaces, must be.
\<close>

fun join_space :: "pystr list \<Rightarrow> pystr" where
  "join_space [] = []"
| "join_space [t] = t"
| "join_space (t # ts) = t @ 32 # join_space ts"

fun value_matches :: "attr_value option \<Rightarrow> pystr \<Rightarrow> bool" where
  "value_matches None s = False"
| "value_matches (Some (AStr v)) s = (v = s)"
| "value_matches (Some (AList vs)) s = (s \<in> set vs \<or> join_space vs = s)"

definition is_stylesheet_link :: "pystr \<Rightarrow> (pystr \<times> attr_value) list \<Rightarrow> bool" where
  "is_stylesheet_link name attrs =
     (name = py ''link'' \<and> value_matches (map_of attrs (py ''rel'')) (py ''stylesheet''))"

text \<open>
  The body of \<open>for link in soup.find_all('link', rel='stylesheet')\<close>, on the attributes of
  the link. \<open>link['href'] = new_href\<close> assigns to a key that is there, so the order of the
  dictionary stays. (A list as \<open>href\<close>, which \<open>bs4\<close> does not build, would make
  \<open>Path(href)\<close> raise.)
\<close>

definition update_link ::
  "pylib \<Rightarrow> (pystr \<rightharpoonup> pystr) \<Rightarrow> (pystr \<times> attr_value) list
     \<Rightarrow> exn + (pystr \<times> attr_value) list" where
  "update_link L file_mapping attrs =
     (case map_of attrs (py ''href'') of
        None \<Rightarrow> Inr attrs
      | Some (AList vs) \<Rightarrow>
          if vs = [] then Inr attrs
          else Inl (TypeError (py ''expected str, bytes or os.PathLike object, not list''))
      | Some (AStr href) \<Rightarrow>
          if href = [] then Inr attrs
          else
            (let file_name = path_name L href
             in case file_mapping file_name of
                  None \<Rightarrow> Inr attrs
                | Some new_name \<Rightarrow>
                    Inr (AList.update (py ''href'')
                           (AStr (py_replace href file_name new_name)) attrs)))"

fun link_node :: "pylib \<Rightarrow> (pystr \<rightharpoonup> pystr) \<Rightarrow> node \<Rightarrow> exn + node"
  and link_nodes :: "pylib \<Rightarrow> (pystr \<rightharpoonup> pystr) \<Rightarrow> node list \<Rightarrow> exn + node list" where
  "link_node L fm (NavigableString s) = Inr (NavigableString s)"
| "link_node L fm (Tag name attrs contents) =
     (case (if is_stylesheet_link name attrs then update_link L fm attrs else Inr attrs) of
        Inl e \<Rightarrow> Inl e
      | Inr attrs' \<Rightarrow>
          (case link_nodes L fm contents of
             Inl e \<Rightarrow> Inl e
           | Inr contents' \<Rightarrow> Inr (Tag name attrs' contents')))"
| "link_nodes L fm [] = Inr []"
| "link_nodes L fm (x # xs) =
     (case link_node L fm x of
        Inl e \<Rightarrow> Inl e
      | Inr x' \<Rightarrow>
          (case link_nodes L fm xs of
             Inl e \<Rightarrow> Inl e
           | Inr xs' \<Rightarrow> Inr (x' # xs')))"

text \<open>
  \<open>Tag.string\<close>, from the contents of the tag: the only child if it is a string, the
  \<open>string\<close> of the only child if it is a tag, else \<open>None\<close>; and
  \<open>tag.string.replace_with(new)\<close>.
\<close>

fun tag_string :: "node list \<Rightarrow> pystr option" where
  "tag_string [NavigableString s] = Some s"
| "tag_string [Tag name attrs contents] = tag_string contents"
| "tag_string contents = None"

fun replace_string :: "node list \<Rightarrow> pystr \<Rightarrow> node list" where
  "replace_string [NavigableString s] new = [NavigableString new]"
| "replace_string [Tag name attrs contents] new = [Tag name attrs (replace_string contents new)]"
| "replace_string contents new = contents"

text \<open>The body of \<open>for style_tag in soup.find_all('style')\<close>, on the contents of a tag.\<close>

definition update_style ::
  "pylib \<Rightarrow> ClassMapping list \<Rightarrow> pystr \<Rightarrow> node list \<Rightarrow> exn + node list" where
  "update_style L mappings name contents =
     (if name = py ''style'' then
        (case tag_string contents of
           None \<Rightarrow> Inr contents
         | Some s \<Rightarrow>
             if s = [] then Inr contents
             else (case process_css_content L s mappings of
                     Inl e \<Rightarrow> Inl e
                   | Inr s' \<Rightarrow> Inr (replace_string contents s')))
      else Inr contents)"

fun count_elements :: "node \<Rightarrow> nat" where
  "count_elements (NavigableString s) = 0"
| "count_elements (Tag name attrs contents) = Suc (sum_list (map count_elements contents))"

fun count_nodes :: "node \<Rightarrow> nat" where
  "count_nodes (NavigableString s) = 1"
| "count_nodes (Tag name attrs contents) = Suc (sum_list (map count_nodes contents))"

lemma count_nodes_pos: "0 < count_nodes x"
  by (cases x) simp_all

lemma count_nodes_replace_string:
  "sum_list (map count_nodes (replace_string contents new)) = sum_list (map count_nodes contents)"
  by (induction contents new rule: replace_string.induct) simp_all

lemma count_nodes_update_style:
  "update_style L mappings name contents = Inr contents' \<Longrightarrow>
     sum_list (map count_nodes contents') = sum_list (map count_nodes contents)"
  by (auto simp: update_style_def count_nodes_replace_string
      split: if_splits option.splits sum.splits)

text \<open>
  The tags are visited in document order, and a tag below a \<open>style\<close> tag sees the text
  that the loop has already put there.
\<close>

function style_node :: "pylib \<Rightarrow> ClassMapping list \<Rightarrow> node \<Rightarrow> exn + node"
  and style_nodes :: "pylib \<Rightarrow> ClassMapping list \<Rightarrow> node list \<Rightarrow> exn + node list" where
  "style_node L ms (NavigableString s) = Inr (NavigableString s)"
| "style_node L ms (Tag name attrs contents) =
     (case update_style L ms name contents of
        Inl e \<Rightarrow> Inl e
      | Inr contents' \<Rightarrow>
          (case style_nodes L ms contents' of
             Inl e \<Rightarrow> Inl e
           | Inr contents'' \<Rightarrow> Inr (Tag name attrs contents'')))"
| "style_nodes L ms [] = Inr []"
| "style_nodes L ms (x # xs) =
     (case style_node L ms x of
        Inl e \<Rightarrow> Inl e
      | Inr x' \<Rightarrow>
          (case style_nodes L ms xs of
             Inl e \<Rightarrow> Inl e
           | Inr xs' \<Rightarrow> Inr (x' # xs')))"
  by pat_completeness auto
termination
  by (relation "measure (\<lambda>a. case a of
          Inl (L, ms, x) \<Rightarrow> 2 * count_nodes x
        | Inr (L, ms, xs) \<Rightarrow> Suc (2 * sum_list (map count_nodes xs)))")
    (auto dest: count_nodes_update_style simp: count_nodes_pos)

text \<open>
  The body of \<open>for tag in soup.find_all(class_=True)\<close>: every tag that has the attribute.
\<close>

definition class_tokens :: "attr_value \<Rightarrow> pystr list" where
  "class_tokens v = (case v of AStr s \<Rightarrow> [s] | AList cs \<Rightarrow> cs)"

definition dict_get :: "(pystr \<rightharpoonup> pystr) \<Rightarrow> pystr \<Rightarrow> pystr" where
  "dict_get d cls = (case d cls of None \<Rightarrow> cls | Some v \<Rightarrow> v)"

definition update_class ::
  "(pystr \<rightharpoonup> pystr) \<Rightarrow> (pystr \<times> attr_value) list \<Rightarrow> (pystr \<times> attr_value) list" where
  "update_class d attrs =
     (case map_of attrs (py ''class'') of
        None \<Rightarrow> attrs
      | Some v \<Rightarrow>
          (let classes = class_tokens v;
               updated = map (dict_get d) classes
           in if updated \<noteq> [] then AList.update (py ''class'') (AList updated) attrs
              else attrs))"

fun class_node :: "(pystr \<rightharpoonup> pystr) \<Rightarrow> node \<Rightarrow> node" where
  "class_node d (NavigableString s) = NavigableString s"
| "class_node d (Tag name attrs contents) =
     Tag name (update_class d attrs) (map (class_node d) contents)"

text \<open>The three loops, between \<open>BeautifulSoup(content, 'lxml')\<close> and \<open>str(soup)\<close>.\<close>

definition rewrite_soup ::
  "pylib \<Rightarrow> ClassMapping list \<Rightarrow> pystr list \<Rightarrow> pystr \<Rightarrow> soup \<Rightarrow> exn + soup" where
  "rewrite_soup L mappings css_files output_suffix soup =
     (case link_nodes L (css_file_mapping L css_files output_suffix) soup of
        Inl e \<Rightarrow> Inl e
      | Inr soup1 \<Rightarrow>
          (case style_nodes L mappings soup1 of
             Inl e \<Rightarrow> Inl e
           | Inr soup2 \<Rightarrow> Inr (map (class_node (class_dict mappings)) soup2)))"

text \<open>
  \<open>str(soup)\<close>: before \<open>Tag.decode\<close> formats an attribute it turns a list value into
  text, \<open>' '.join(val)\<close>, so the tokens of a \<open>class\<close> are written with one space between
  them. The rest of the serialiser is the library's, on the tree with these texts.
\<close>

definition attribute_text :: "attr_value \<Rightarrow> pystr" where
  "attribute_text val = (case val of AStr s \<Rightarrow> s | AList vs \<Rightarrow> join_space vs)"

fun decode_values :: "node \<Rightarrow> node" where
  "decode_values (NavigableString s) = NavigableString s"
| "decode_values (Tag name attrs contents) =
     Tag name (map (\<lambda>(key, val). (key, AStr (attribute_text val))) attrs)
       (map decode_values contents)"

definition process_html_content ::
  "pylib \<Rightarrow> pystr \<Rightarrow> ClassMapping list \<Rightarrow> pystr list \<Rightarrow> pystr \<Rightarrow> exn + pystr" where
  "process_html_content L content mappings css_files output_suffix =
     (case soup_parse L content of
        Inl e \<Rightarrow> Inl e
      | Inr soup \<Rightarrow>
          (case rewrite_soup L mappings css_files output_suffix soup of
             Inl e \<Rightarrow> Inl e
           | Inr soup' \<Rightarrow> Inr (soup_str L (map decode_values soup'))))"

section \<open>Class Extractor\<close>

text \<open>
  The loop over a prelude in \<open>extract_classes_from_css\<close>: an \<open>ident\<close> token right after
  the \<open>literal\<close> token \<open>.\<close> is a class name.
\<close>

fun prelude_classes :: "css_node list \<Rightarrow> pystr fset" where
  "prelude_classes (LiteralToken v # IdentToken name # rest) =
     (if v = py ''.'' then {|name|} else {||}) |\<union>| prelude_classes (IdentToken name # rest)"
| "prelude_classes (previous # rest) = prelude_classes rest"
| "prelude_classes [] = {||}"

fun rule_classes :: "css_rule \<Rightarrow> pystr fset" where
  "rule_classes (QualifiedRule prelude) = prelude_classes prelude"
| "rule_classes OtherRule = {||}"

definition extract_classes_from_css :: "pylib \<Rightarrow> pystr \<Rightarrow> exn + pystr fset" where
  "extract_classes_from_css L css_content =
     (case parse_stylesheet L css_content of
        Inl e \<Rightarrow> Inl e
      | Inr rules \<Rightarrow> Inr (fold (\<lambda>rule class_names. class_names |\<union>| rule_classes rule) rules {||}))"

text \<open>
  \<open>extract_classes_from_html\<close>: the tokens of every \<open>class\<close> attribute, then the classes
  of every \<open>style\<close> tag with a non-empty \<open>string\<close>, in document order.
\<close>

fun attribute_classes :: "node \<Rightarrow> pystr fset" where
  "attribute_classes (NavigableString s) = {||}"
| "attribute_classes (Tag name attrs contents) =
     (case map_of attrs (py ''class'') of
        None \<Rightarrow> {||}
      | Some v \<Rightarrow> fset_of_list (class_tokens v))
     |\<union>| fold (\<lambda>child class_names. class_names |\<union>| attribute_classes child) contents {||}"

fun style_strings :: "node \<Rightarrow> pystr list" where
  "style_strings (NavigableString s) = []"
| "style_strings (Tag name attrs contents) =
     (if name = py ''style'' then
        (case tag_string contents of None \<Rightarrow> [] | Some s \<Rightarrow> if s = [] then [] else [s])
      else [])
     @ concat (map style_strings contents)"

fun css_classes_of_all :: "pylib \<Rightarrow> pystr list \<Rightarrow> pystr fset \<Rightarrow> exn + pystr fset" where
  "css_classes_of_all L [] class_names = Inr class_names"
| "css_classes_of_all L (s # rest) class_names =
     (case extract_classes_from_css L s of
        Inl e \<Rightarrow> Inl e
      | Inr found \<Rightarrow> css_classes_of_all L rest (class_names |\<union>| found))"

definition extract_classes_from_html :: "pylib \<Rightarrow> pystr \<Rightarrow> exn + pystr fset" where
  "extract_classes_from_html L html_content =
     (case soup_parse L html_content of
        Inl e \<Rightarrow> Inl e
      | Inr soup \<Rightarrow>
          css_classes_of_all L (concat (map style_strings soup))
            (fold (\<lambda>tag class_names. class_names |\<union>| attribute_classes tag) soup {||}))"

section \<open>Project Orchestrator: \<open>obfuscate_website\<close>\<close>

text \<open>
  The file system is a state of any type \<open>'fs\<close>; what \<open>pathlib\<close> and \<open>shutil\<close> do with
  it is a parameter. Reading leaves the state as it is; writing and copying return the new
  state and the exception, if one was raised.
\<close>

record 'fs pyos =
  is_dir :: "'fs \<Rightarrow> pystr \<Rightarrow> bool"
  rglob :: "'fs \<Rightarrow> pystr \<Rightarrow> pystr \<Rightarrow> exn + pystr list"
  read_text :: "'fs \<Rightarrow> pystr \<Rightarrow> exn + pystr"
  write_text :: "'fs \<Rightarrow> pystr \<Rightarrow> pystr \<Rightarrow> exn option \<times> 'fs"
  copy2 :: "'fs \<Rightarrow> pystr \<Rightarrow> pystr \<Rightarrow> exn option \<times> 'fs"

fun rglob_all :: "'fs pyos \<Rightarrow> 'fs \<Rightarrow> pystr \<Rightarrow> pystr list \<Rightarrow> pystr list \<Rightarrow> exn + pystr list" where
  "rglob_all os fs folder_path [] files = Inr files"
| "rglob_all os fs folder_path (ext # rest) files =
     (case rglob os fs folder_path (py ''*'' @ ext) of
        Inl e \<Rightarrow> Inl e
      | Inr found \<Rightarrow> rglob_all os fs folder_path rest (files @ found))"

definition scan_project_files ::
  "'fs pyos \<Rightarrow> 'fs \<Rightarrow> pystr \<Rightarrow> pystr list option \<Rightarrow> exn + pystr list" where
  "scan_project_files os fs folder_path extensions_opt =
     (let extensions =
            (case extensions_opt of None \<Rightarrow> [py ''.html'', py ''.css''] | Some e \<Rightarrow> e)
      in if \<not> is_dir os fs folder_path
         then Inl (ValueError ([39] @ folder_path @ [39] @ py '' is not a valid directory''))
         else (case rglob_all os fs folder_path extensions [] of
                 Inl e \<Rightarrow> Inl e
               | Inr files \<Rightarrow> Inr (sort files)))"

text \<open>The function \<open>create_backup\<close> of the module.\<close>

definition create_backup :: "'fs pyos \<Rightarrow> 'fs \<Rightarrow> pystr \<Rightarrow> pystr option \<times> 'fs" where
  "create_backup os fs file_path =
     (let backup_path = file_path @ py ''.backup''
      in case copy2 os fs file_path backup_path of
           (None, fs') \<Rightarrow> (Some backup_path, fs')
         | (Some e, fs') \<Rightarrow> (None, fs'))"

definition generate_obfuscated_filename :: "pylib \<Rightarrow> pystr \<Rightarrow> pystr \<Rightarrow> pystr" where
  "generate_obfuscated_filename L file_path suffix =
     path_sibling L file_path (path_stem L file_path @ suffix @ path_suffix L file_path)"

definition endswith :: "pystr \<Rightarrow> pystr \<Rightarrow> bool" where
  "endswith s ending = (length ending \<le> length s \<and> drop (length s - length ending) s = ending)"

record stats =
  processed_css_files :: "(pystr \<times> pystr) list"
  processed_html_files :: "(pystr \<times> pystr) list"
  total_classes :: nat
  class_mappings :: "ClassMapping list"
  errors :: "pystr list"
  backups_created :: "pystr list"

definition empty_stats :: stats where
  "empty_stats =
     \<lparr>processed_css_files = [], processed_html_files = [], total_classes = 0,
      class_mappings = [], errors = [], backups_created = []\<rparr>"

definition report :: "pystr \<Rightarrow> pystr \<Rightarrow> exn \<Rightarrow> stats \<Rightarrow> stats" where
  "report what file e st = st\<lparr>errors := errors st @ [what @ file @ py '' - '' @ str_exn e]\<rparr>"

text \<open>The two scanning loops, on the state \<open>(all_classes, stats)\<close>.\<close>

definition scan_css_file ::
  "pylib \<Rightarrow> 'fs pyos \<Rightarrow> 'fs \<Rightarrow> pystr fset \<times> stats \<Rightarrow> pystr \<Rightarrow> pystr fset \<times> stats" where
  "scan_css_file L os fs state css_file =
     (case state of (all_classes, st) \<Rightarrow>
        (case read_text os fs css_file of
           Inl e \<Rightarrow> (all_classes, report (py ''CSS scan error: '') css_file e st)
         | Inr content \<Rightarrow>
             (case extract_classes_from_css L content of
                Inl e \<Rightarrow> (all_classes, report (py ''CSS scan error: '') css_file e st)
              | Inr found \<Rightarrow> (all_classes |\<union>| found, st))))"

definition scan_html_file ::
  "pylib \<Rightarrow> 'fs pyos \<Rightarrow> 'fs \<Rightarrow> pystr fset \<times> stats \<Rightarrow> pystr \<Rightarrow> pystr fset \<times> stats" where
  "scan_html_file L os fs state html_file =
     (case state of (all_classes, st) \<Rightarrow>
        (case read_text os fs html_file of
           Inl e \<Rightarrow> (all_classes, report (py ''HTML scan error: '') html_file e st)
         | Inr content \<Rightarrow>
             (case extract_classes_from_html L content of
                Inl e \<Rightarrow> (all_classes, report (py ''HTML scan error: '') html_file e st)
              | Inr found \<Rightarrow> (all_classes |\<union>| found, st))))"

definition scan_classes ::
  "pylib \<Rightarrow> 'fs pyos \<Rightarrow> 'fs \<Rightarrow> pystr list \<Rightarrow> pystr list \<Rightarrow> stats \<Rightarrow> pystr fset \<times> stats" where
  "scan_classes L os fs css_files html_files st =
     foldl (scan_html_file L os fs) (foldl (scan_css_file L os fs) ({||}, st) css_files) html_files"

text \<open>
  Inside \<open>obfuscate_website\<close> the name \<open>create_backup\<close> is the parameter of that name, a
  \<open>bool\<close>, not the function of the module: \<open>create_backup(css_file)\<close> calls a \<open>bool\<close>,
  which raises \<open>TypeError\<close>. The parameter is written \<open>create_backup'\<close> here.
\<close>

definition call_bool :: "bool \<Rightarrow> pystr \<Rightarrow> exn + pystr option" where
  "call_bool callee argument = Inl (TypeError ([39] @ py ''bool'' @ [39] @ py '' object is not callable''))"

definition backup_step :: "bool \<Rightarrow> pystr \<Rightarrow> stats \<Rightarrow> exn + stats" where
  "backup_step create_backup' file st =
     (if create_backup' then
        (case call_bool create_backup' file of
           Inl e \<Rightarrow> Inl e
         | Inr backup \<Rightarrow>
             (case backup of
                None \<Rightarrow> Inr st
              | Some path \<Rightarrow>
                  if path = [] then Inr st
                  else Inr (st\<lparr>backups_created := backups_created st @ [path]\<rparr>)))
      else Inr st)"

text \<open>The two rewriting loops, on the state \<open>(stats, file system)\<close>.\<close>

definition process_css_file ::
  "pylib \<Rightarrow> 'fs pyos \<Rightarrow> bool \<Rightarrow> ClassMapping list \<Rightarrow> pystr \<Rightarrow> stats \<times> 'fs \<Rightarrow> pystr
     \<Rightarrow> stats \<times> 'fs" where
  "process_css_file L os create_backup' mappings output_suffix state css_file =
     (case state of (st, fs) \<Rightarrow>
        (case backup_step create_backup' css_file st of
           Inl e \<Rightarrow> (report (py ''CSS process error: '') css_file e st, fs)
         | Inr st1 \<Rightarrow>
             (case read_text os fs css_file of
                Inl e \<Rightarrow> (report (py ''CSS process error: '') css_file e st1, fs)
              | Inr content \<Rightarrow>
                  (case process_css_content L content mappings of
                     Inl e \<Rightarrow> (report (py ''CSS process error: '') css_file e st1, fs)
                   | Inr new_content \<Rightarrow>
                       (let output = generate_obfuscated_filename L css_file output_suffix
                        in case write_text os fs output new_content of
                             (Some e, fs') \<Rightarrow>
                               (report (py ''CSS process error: '') css_file e st1, fs')
                           | (None, fs') \<Rightarrow>
                               (st1\<lparr>processed_css_files :=
                                      processed_css_files st1 @ [(css_file, output)]\<rparr>, fs'))))))"

definition process_html_file ::
  "pylib \<Rightarrow> 'fs pyos \<Rightarrow> bool \<Rightarrow> ClassMapping list \<Rightarrow> pystr list \<Rightarrow> pystr \<Rightarrow> stats \<times> 'fs
     \<Rightarrow> pystr \<Rightarrow> stats \<times> 'fs" where
  "process_html_file L os create_backup' mappings css_files output_suffix state html_file =
     (case state of (st, fs) \<Rightarrow>
        (case backup_step create_backup' html_file st of
           Inl e \<Rightarrow> (report (py ''HTML process error: '') html_file e st, fs)
         | Inr st1 \<Rightarrow>
             (case read_text os fs html_file of
                Inl e \<Rightarrow> (report (py ''HTML process error: '') html_file e st1, fs)
              | Inr content \<Rightarrow>
                  (case process_html_content L content mappings css_files output_suffix of
                     Inl e \<Rightarrow> (report (py ''HTML process error: '') html_file e st1, fs)
                   | Inr new_content \<Rightarrow>
                       (let output = generate_obfuscated_filename L html_file output_suffix
                        in case write_text os fs output new_content of
                             (Some e, fs') \<Rightarrow>
                               (report (py ''HTML process error: '') html_file e st1, fs')
                           | (None, fs') \<Rightarrow>
                               (st1\<lparr>processed_html_files :=
                                      processed_html_files st1 @ [(html_file, output)]\<rparr>, fs'))))))"

text \<open>
  The body of the \<open>try\<close> of \<open>obfuscate_website\<close>: its result is the exception that left
  it, if any, with the statistics and the file system as they are at that moment.
\<close>

definition obfuscate_website_try ::
  "pylib \<Rightarrow> 'fs pyos \<Rightarrow> 'fs \<Rightarrow> pystr \<Rightarrow> pystr \<Rightarrow> pystr list \<Rightarrow> pystr \<Rightarrow> pystr list \<Rightarrow> bool
     \<Rightarrow> stats \<Rightarrow> (exn option \<times> stats) \<times> 'fs" where
  "obfuscate_website_try L os fs folder_path output_suffix extensions method exclude_classes
       create_backup' st =
     (case scan_project_files os fs folder_path (Some extensions) of
        Inl e \<Rightarrow> ((Some e, st), fs)
      | Inr all_files \<Rightarrow>
          (let css_files = filter (\<lambda>f. endswith f (py ''.css'')) all_files;
               html_files = filter (\<lambda>f. endswith f (py ''.html'')) all_files
           in case scan_classes L os fs css_files html_files st of
                (all_classes, st1) \<Rightarrow>
                  if all_classes = {||} then ((None, st1), fs)
                  else
                    (case build_class_mapping L all_classes method (Some (set exclude_classes)) of
                       Inl e \<Rightarrow> ((Some e, st1), fs)
                     | Inr mappings \<Rightarrow>
                         (let st2 = st1\<lparr>total_classes := length mappings,
                                         class_mappings := mappings\<rparr>;
                              state3 = foldl (process_css_file L os create_backup' mappings
                                                output_suffix) (st2, fs) css_files;
                              state4 = foldl (process_html_file L os create_backup' mappings
                                                css_files output_suffix) state3 html_files
                          in ((None, fst state4), snd state4)))))"

text \<open>
  \<open>obfuscate_website\<close>: the defaults, the \<open>try\<close>, and \<open>except Exception\<close>, which
  appends \<open>str(e)\<close> to the errors and returns the statistics. The result says whether the
  call returns (\<open>Inr\<close>) or raises (\<open>Inl\<close>).
\<close>

definition obfuscate_website ::
  "pylib \<Rightarrow> 'fs pyos \<Rightarrow> 'fs \<Rightarrow> pystr \<Rightarrow> pystr \<Rightarrow> pystr list option \<Rightarrow> pystr
     \<Rightarrow> pystr list option \<Rightarrow> bool \<Rightarrow> (exn + stats) \<times> 'fs" where
  "obfuscate_website L os fs folder_path output_suffix extensions_opt method exclude_opt
       create_backup' =
     (let extensions =
            (case extensions_opt of None \<Rightarrow> [py ''.html'', py ''.css''] | Some e \<Rightarrow> e);
          exclude_classes = (case exclude_opt of None \<Rightarrow> [] | Some e \<Rightarrow> e)
      in case obfuscate_website_try L os fs folder_path output_suffix extensions method
                exclude_classes create_backup' empty_stats of
           ((Some e, st), fs') \<Rightarrow> (Inr (st\<lparr>errors := errors st @ [str_exn e]\<rparr>), fs')
         | ((None, st), fs') \<Rightarrow> (Inr st, fs'))"

section \<open>An example library\<close>

text \<open>
  The closed examples below need the libraries at concrete values. \<open>example_lib\<close> holds
  the Unicode database restricted to Latin-1 (letters: U+00AA, U+00B5, U+00BA, U+00C0 to
  U+00FF without the signs U+00D7 and U+00F7; uppercase: U+00C0 to U+00DE without U+00D7;
  further alphanumerics: the superscripts U+00B2, U+00B3, U+00B9 and the fractions U+00BC
  to U+00BE) and the MD5 test suite of RFC 1321 for the byte strings \<open>a\<close> and \<open>abc\<close>
  (every other input gets the digest of the empty string, which no example relies on).
  Its paths are POSIX paths without a trailing slash.
\<close>

definition latin1_alpha :: "nat \<Rightarrow> bool" where
  "latin1_alpha c =
     (c = 170 \<or> c = 181 \<or> c = 186 \<or> (192 \<le> c \<and> c \<le> 255 \<and> c \<noteq> 215 \<and> c \<noteq> 247))"

definition latin1_upper :: "nat \<Rightarrow> bool" where
  "latin1_upper c = (192 \<le> c \<and> c \<le> 222 \<and> c \<noteq> 215)"

definition latin1_alnum :: "nat \<Rightarrow> bool" where
  "latin1_alnum c =
     (latin1_alpha c \<or> c = 178 \<or> c = 179 \<or> c = 185 \<or> c = 188 \<or> c = 189 \<or> c = 190)"

definition rfc1321_md5 :: "nat list \<Rightarrow> 128 word" where
  "rfc1321_md5 bs =
     (if bs = [97] then 0x0cc175b9c0f1b6a831c399e269772661
      else if bs = [97, 98, 99] then 0x900150983cd24fb0d6963f7d28e17f72
      else 0xd41d8cd98f00b204e9800998ecf8427e)"

definition posix_name :: "pystr \<Rightarrow> pystr" where
  "posix_name p = rev (takeWhile (\<lambda>c. c \<noteq> 47) (rev p))"

definition posix_stem :: "pystr \<Rightarrow> pystr" where
  "posix_stem p =
     (let name = posix_name p; ext = rev (takeWhile (\<lambda>c. c \<noteq> 46) (rev name))
      in if 46 \<in> set name \<and> length ext + 1 < length name \<and> ext \<noteq> []
         then take (length name - length ext - 1) name else name)"

definition posix_suffix :: "pystr \<Rightarrow> pystr" where
  "posix_suffix p = drop (length (posix_stem p)) (posix_name p)"

definition posix_sibling :: "pystr \<Rightarrow> pystr \<Rightarrow> pystr" where
  "posix_sibling p name = take (length p - length (posix_name p)) p @ name"

text \<open>
  Two documents with what \<open>lxml\<close> parses from them and what \<open>str(soup)\<close> writes for the
  trees (every other text is parsed as the empty document and every other tree written as
  the empty text, which no example relies on). The first is a whole document with a
  stylesheet link, an inline style and a \<open>div\<close> with two classes; \<open>demo_soup_rewritten\<close>
  is its tree with the class \<open>box\<close> renamed to \<open>era\<close>. The second is a fragment, around
  which the parser puts \<open>html\<close> and \<open>body\<close>. The serialiser writes the attributes of a
  tag sorted by name, in double quotes.
\<close>

definition dq :: "pystr \<Rightarrow> pystr" where
  "dq s = 34 # s @ [34]"

definition demo_html :: pystr where
  "demo_html =
     py ''<html><head><link rel=stylesheet href=css/style.css><style>.box{}</style></head>''
     @ py ''<body><div id=main class='' @ dq (py ''box keep'') @ py ''>hi</div></body></html>''"

definition demo_soup :: soup where
  "demo_soup =
     [Tag (py ''html'') []
        [Tag (py ''head'') []
           [Tag (py ''link'')
              [(py ''rel'', AList [py ''stylesheet'']), (py ''href'', AStr (py ''css/style.css''))] [],
            Tag (py ''style'') [] [NavigableString (py ''.box{}'')]],
         Tag (py ''body'') []
           [Tag (py ''div'') [(py ''id'', AStr (py ''main'')), (py ''class'', AList [py ''box'', py ''keep''])]
              [NavigableString (py ''hi'')]]]]"

definition demo_soup_rewritten :: soup where
  "demo_soup_rewritten =
     [Tag (py ''html'') []
        [Tag (py ''head'') []
           [Tag (py ''link'')
              [(py ''rel'', AList [py ''stylesheet'']),
               (py ''href'', AStr (py ''css/style_obfuscated.css''))] [],
            Tag (py ''style'') [] [NavigableString (py ''.era{}'')]],
         Tag (py ''body'') []
           [Tag (py ''div'') [(py ''id'', AStr (py ''main'')), (py ''class'', AList [py ''era'', py ''keep''])]
              [NavigableString (py ''hi'')]]]]"

definition demo_html_rewritten :: pystr where
  "demo_html_rewritten =
     py ''<html><head><link href='' @ dq (py ''css/style_obfuscated.css'')
     @ py '' rel='' @ dq (py ''stylesheet'') @ py ''/><style>.era{}</style></head>''
     @ py ''<body><div class='' @ dq (py ''era keep'') @ py '' id='' @ dq (py ''main'')
     @ py ''>hi</div></body></html>''"

definition fragment_html :: pystr where
  "fragment_html = py ''<p id=x class=a>hi</p>''"

definition fragment_soup :: soup where
  "fragment_soup =
     [Tag (py ''html'') []
        [Tag (py ''body'') []
           [Tag (py ''p'') [(py ''id'', AStr (py ''x'')), (py ''class'', AList [py ''a''])]
              [NavigableString (py ''hi'')]]]]"

definition fragment_html_written :: pystr where
  "fragment_html_written =
     py ''<html><body><p class='' @ dq (py ''a'') @ py '' id='' @ dq (py ''x'')
     @ py ''>hi</p></body></html>''"

definition example_lib :: pylib where
  "example_lib =
     \<lparr>uc_alpha = latin1_alpha, uc_upper = latin1_upper, uc_alnum = latin1_alnum,
      md5_digest = rfc1321_md5,
      re_template = (\<lambda>repl matched. Inl (OtherError (py ''bad escape''))),
      parse_stylesheet = (\<lambda>css. Inr []),
      soup_parse = (\<lambda>html. if html = demo_html then Inr demo_soup
                            else if html = fragment_html then Inr fragment_soup
                            else Inr []),
      soup_str = (\<lambda>soup. if soup = map decode_values demo_soup_rewritten then demo_html_rewritten
                          else if soup = map decode_values fragment_soup then fragment_html_written
                          else []),
      path_name = posix_name, path_stem = posix_stem, path_suffix = posix_suffix,
      path_sibling = posix_sibling\<rparr>"

section \<open>The claims\<close>

subsection \<open>The method \<open>shift\<close>\<close>

lemma shift_chars_length: "length (shift_chars L n s) = length s"
  by (induction s) (auto simp: Let_def)

lemma shift_chars_nth:
  "i < length s \<Longrightarrow> shift_chars L n s ! i =
     (if isalpha L (s ! i)
      then nat ((if isupper L (s ! i) then 65 else 97)
                + (int (s ! i) - (if isupper L (s ! i) then 65 else 97) + int n) mod 26)
      else s ! i)"
proof (induction s arbitrary: i)
  case Nil
  then show ?case by simp
next
  case (Cons c cs)
  show ?case
  proof (cases i)
    case 0
    then show ?thesis by (simp add: Let_def)
  next
    case (Suc j)
    with Cons show ?thesis by (simp add: Let_def)
  qed
qed

lemma rotated_residue:
  "(b + (c - b + n) mod 26) mod 26 = (c + n) mod (26::int)"
proof -
  have "(b + (c - b + n) mod 26) mod 26 = (b + (c - b + n)) mod 26"
    by (rule mod_add_right_eq)
  then show ?thesis by simp
qed

text \<open>
  C8. For every identifier the method \<open>shift\<close> returns a string of the same length. With
  \<open>n\<close> the length of the whole identifier, an ASCII letter is rotated by \<open>n\<close> inside its own
  range: an uppercase letter becomes the letter of \<open>A..Z\<close>, a lowercase letter the letter of
  \<open>a..z\<close>, whose code is congruent to the old code plus \<open>n\<close> modulo 26. An alphabetic
  character outside ASCII is not rotated in a range of its own: it becomes the ASCII letter
  with that residue, of \<open>A..Z\<close> if \<open>isupper\<close> holds of it and of \<open>a..z\<close> otherwise. A character
  that is not alphabetic is unchanged, and the empty identifier is returned as it is.
\<close>

theorem obfuscate_identifier_shift_characters:
  "\<exists>r. obfuscate_identifier L s (py ''shift'') = Inr r \<and> length r = length s
     \<and> (\<forall>i<length s.
          (ascii_upper (s ! i) \<longrightarrow>
             ascii_upper (r ! i) \<and> int (r ! i) mod 26 = (int (s ! i) + int (length s)) mod 26)
        \<and> (ascii_lower (s ! i) \<longrightarrow>
             ascii_lower (r ! i) \<and> int (r ! i) mod 26 = (int (s ! i) + int (length s)) mod 26)
        \<and> (128 \<le> s ! i \<and> isalpha L (s ! i) \<longrightarrow>
             (if isupper L (s ! i) then ascii_upper (r ! i) else ascii_lower (r ! i))
             \<and> int (r ! i) mod 26 = (int (s ! i) + int (length s)) mod 26)
        \<and> (\<not> isalpha L (s ! i) \<longrightarrow> r ! i = s ! i))
     \<and> (s = [] \<longrightarrow> r = [])"
proof -
  let ?r = "shift_chars L (length s) s"
  let ?n = "int (length s)"
  have res: "obfuscate_identifier L s (py ''shift'') = Inr ?r"
    by (cases s) (simp_all add: obfuscate_identifier_def)
  have chars: "\<forall>i<length s.
          (ascii_upper (s ! i) \<longrightarrow>
             ascii_upper (?r ! i) \<and> int (?r ! i) mod 26 = (int (s ! i) + ?n) mod 26)
        \<and> (ascii_lower (s ! i) \<longrightarrow>
             ascii_lower (?r ! i) \<and> int (?r ! i) mod 26 = (int (s ! i) + ?n) mod 26)
        \<and> (128 \<le> s ! i \<and> isalpha L (s ! i) \<longrightarrow>
             (if isupper L (s ! i) then ascii_upper (?r ! i) else ascii_lower (?r ! i))
             \<and> int (?r ! i) mod 26 = (int (s ! i) + ?n) mod 26)
        \<and> (\<not> isalpha L (s ! i) \<longrightarrow> ?r ! i = s ! i)"
  proof (intro allI impI)
    fix i
    assume i: "i < length s"
    let ?c = "s ! i"
    let ?m = "(int ?c - 65 + ?n) mod 26"
    let ?k = "(int ?c - 97 + ?n) mod 26"
    have m: "0 \<le> ?m" "?m < 26" by simp_all
    have k: "0 \<le> ?k" "?k < 26" by simp_all
    have up: "isalpha L ?c \<Longrightarrow> isupper L ?c \<Longrightarrow>
        ascii_upper (?r ! i) \<and> int (?r ! i) mod 26 = (int ?c + ?n) mod 26"
    proof -
      assume "isalpha L ?c" "isupper L ?c"
      then have r: "int (?r ! i) = 65 + ?m"
        using m by (simp add: shift_chars_nth [OF i])
      have "ascii_upper (?r ! i)"
        unfolding ascii_upper_def using r m by (intro conjI; linarith)
      moreover have "int (?r ! i) mod 26 = (int ?c + ?n) mod 26"
        unfolding r by (rule rotated_residue)
      ultimately show ?thesis by simp
    qed
    have low: "isalpha L ?c \<Longrightarrow> \<not> isupper L ?c \<Longrightarrow>
        ascii_lower (?r ! i) \<and> int (?r ! i) mod 26 = (int ?c + ?n) mod 26"
    proof -
      assume "isalpha L ?c" "\<not> isupper L ?c"
      then have r: "int (?r ! i) = 97 + ?k"
        using k by (simp add: shift_chars_nth [OF i])
      have "ascii_lower (?r ! i)"
        unfolding ascii_lower_def using r k by (intro conjI; linarith)
      moreover have "int (?r ! i) mod 26 = (int ?c + ?n) mod 26"
        unfolding r by (rule rotated_residue)
      ultimately show ?thesis by simp
    qed
    have a1: "ascii_upper ?c \<Longrightarrow> isalpha L ?c \<and> isupper L ?c"
      by (simp add: isalpha_def isupper_def ascii_upper_def)
    have a2: "ascii_lower ?c \<Longrightarrow> isalpha L ?c \<and> \<not> isupper L ?c"
      by (simp add: isalpha_def isupper_def ascii_upper_def ascii_lower_def)
    have other: "\<not> isalpha L ?c \<Longrightarrow> ?r ! i = ?c"
      by (simp add: shift_chars_nth [OF i])
    show "(ascii_upper ?c \<longrightarrow>
             ascii_upper (?r ! i) \<and> int (?r ! i) mod 26 = (int ?c + ?n) mod 26)
        \<and> (ascii_lower ?c \<longrightarrow>
             ascii_lower (?r ! i) \<and> int (?r ! i) mod 26 = (int ?c + ?n) mod 26)
        \<and> (128 \<le> ?c \<and> isalpha L ?c \<longrightarrow>
             (if isupper L ?c then ascii_upper (?r ! i) else ascii_lower (?r ! i))
             \<and> int (?r ! i) mod 26 = (int ?c + ?n) mod 26)
        \<and> (\<not> isalpha L ?c \<longrightarrow> ?r ! i = ?c)"
      using up low a1 a2 other by (cases "isupper L ?c") (simp_all, blast+)
  qed
  show ?thesis
    using res chars by (intro exI [of _ ?r]) (simp add: shift_chars_length)
qed

text \<open>
  The claim as stated fails for a letter outside ASCII: U+00E9 is alphabetic and not
  uppercase, and as an identifier of length 1 it becomes \<open>h\<close>, which is also what \<open>g\<close>
  becomes. So the character has left its own range, and two letters share one image, which
  no rotation does.
\<close>

theorem obfuscate_identifier_shift_folds:
  "isalpha example_lib 233 \<and> \<not> isupper example_lib 233 \<and> \<not> ascii_lower 233
   \<and> obfuscate_identifier example_lib [233] (py ''shift'') = Inr (py ''h'')
   \<and> obfuscate_identifier example_lib (py ''g'') (py ''shift'') = Inr (py ''h'')"
  by (simp add: obfuscate_identifier_def py_def isalpha_def isupper_def ascii_upper_def
      ascii_lower_def example_lib_def latin1_alpha_def latin1_upper_def Let_def)

theorem obfuscate_identifier_shift_characters_btn:
  "\<exists>r. obfuscate_identifier example_lib (py ''btn'') (py ''shift'') = Inr r \<and> r = py ''ewq''
     \<and> ascii_lower (r ! 0) \<and> int (r ! 0) mod 26 = (int (py ''btn'' ! 0) + 3) mod 26"
proof -
  have s: "py ''btn'' = [98, 116, 110]" by (simp add: py_def)
  have a: "ascii_lower 98" by (simp add: ascii_lower_def)
  from obfuscate_identifier_shift_characters [of example_lib "py ''btn''"]
  obtain r where r: "obfuscate_identifier example_lib (py ''btn'') (py ''shift'') = Inr r"
    and "\<forall>i<length (py ''btn'').
          (ascii_lower (py ''btn'' ! i) \<longrightarrow>
             ascii_lower (r ! i)
             \<and> int (r ! i) mod 26 = (int (py ''btn'' ! i) + int (length (py ''btn''))) mod 26)"
    by blast
  then have "ascii_lower (r ! 0)
      \<and> int (r ! 0) mod 26 = (int (py ''btn'' ! 0) + 3) mod 26"
    using a by (simp add: s)
  moreover have "r = py ''ewq''"
    using r by (simp add: obfuscate_identifier_def py_def isalpha_def isupper_def
        ascii_upper_def ascii_lower_def Let_def)
  ultimately show ?thesis using r by blast
qed

subsection \<open>The method \<open>hash\<close>\<close>

lemma hex_fixed_length: "length (hex_fixed k v) = k"
  by (induction k v rule: hex_fixed.induct) auto

text \<open>
  C9. For every non-empty identifier (a Unicode text: no surrogate code point, which
  \<open>encode\<close> refuses) the method \<open>hash\<close> returns a string of length 9 whose first
  character is the letter \<open>c\<close> (code point 99), and the result is a function of the
  identifier alone: the letter and the first 8 hexadecimal digits of the MD5 digest of its
  UTF-8 bytes.
\<close>

theorem obfuscate_identifier_hash_fixed_length:
  "s \<noteq> [] \<Longrightarrow> \<not> list_ex is_surrogate s \<Longrightarrow>
     \<exists>r. obfuscate_identifier L s (py ''hash'') = Inr r \<and> length r = 9 \<and> r ! 0 = 99
       \<and> r = 99 # take 8 (hexdigest (md5_digest L (concat (map utf8_char s))))"
  by (simp add: obfuscate_identifier_def encode_utf8_def py_def hex_fixed_length hexdigest_def)

theorem obfuscate_identifier_hash_witness:
  "\<exists>r. obfuscate_identifier example_lib (py ''a'') (py ''hash'') = Inr r
     \<and> length r = 9 \<and> r ! 0 = 99"
proof -
  have "py ''a'' \<noteq> []" and "\<not> list_ex is_surrogate (py ''a'')"
    by (simp_all add: py_def is_surrogate_def)
  from obfuscate_identifier_hash_fixed_length [OF this, of example_lib]
  show ?thesis by blast
qed

text \<open>A surrogate makes \<open>encode\<close>, and with it the methods \<open>hash\<close> and \<open>hex\<close>, raise.\<close>

lemma obfuscate_identifier_hash_surrogate:
  "list_ex is_surrogate s \<Longrightarrow>
     obfuscate_identifier L s (py ''hash'') = Inl (UnicodeEncodeError (surrogate_message s))"
  by (cases s) (simp_all add: obfuscate_identifier_def encode_utf8_def py_def)

subsection \<open>Identifiers that \<open>shift\<close> leaves unchanged\<close>

lemma rot_mod:
  fixes x n :: int
  assumes "0 \<le> x" "x < 26"
  shows "((x + n) mod 26 = x) = (n mod 26 = 0)"
proof -
  from assms have x: "x mod 26 = x" by simp
  have "((x + n) mod 26 = x mod 26) = (26 dvd (x + n) - x)"
    by (rule mod_eq_dvd_iff)
  also have "\<dots> = (n mod 26 = 0)"
    by (simp add: mod_eq_0_iff_dvd)
  finally show ?thesis by (simp only: x)
qed

lemma int_mod26: "(int n mod 26 = 0) = (n mod 26 = 0)"
proof -
  have "int n mod 26 = int (n mod 26)" by (simp add: zmod_int)
  then show ?thesis by simp
qed


lemma nat_add_eq:
  fixes m b :: int
  assumes "0 \<le> m" "0 \<le> b"
  shows "(nat (b + m) = c) = (m = int c - b)"
  using assms by linarith

lemma shift_char_fixed:
  assumes "isalpha L c"
  shows "(nat ((if isupper L c then 65 else 97)
            + (int c - (if isupper L c then 65 else 97) + int n) mod 26) = c)
         = (c < 128 \<and> n mod 26 = 0)"
proof (cases "c < 128")
  case True
  with assms have "ascii_upper c \<or> ascii_lower c" by (simp add: isalpha_def)
  then show ?thesis
  proof
    assume u: "ascii_upper c"
    with True have up: "isupper L c" by (simp add: isupper_def)
    from u have "0 \<le> int c - 65" "int c - 65 < 26" by (simp_all add: ascii_upper_def)
    from rot_mod [OF this, of "int n"]
    have "((int c - 65 + int n) mod 26 = int c - 65) = (n mod 26 = 0)"
      by (simp only: int_mod26)
    moreover have "0 \<le> (int c - 65 + int n) mod 26" by simp
    ultimately have "(nat (65 + (int c - 65 + int n) mod 26) = c) = (n mod 26 = 0)"
      by (simp only: nat_add_eq)
    with up True show ?thesis by simp
  next
    assume l: "ascii_lower c"
    with True have up: "\<not> isupper L c"
      by (simp add: isupper_def ascii_upper_def ascii_lower_def)
    from l have "0 \<le> int c - 97" "int c - 97 < 26" by (simp_all add: ascii_lower_def)
    from rot_mod [OF this, of "int n"]
    have "((int c - 97 + int n) mod 26 = int c - 97) = (n mod 26 = 0)"
      by (simp only: int_mod26)
    moreover have "0 \<le> (int c - 97 + int n) mod 26" by simp
    ultimately have "(nat (97 + (int c - 97 + int n) mod 26) = c) = (n mod 26 = 0)"
      by (simp only: nat_add_eq)
    with up True show ?thesis by simp
  qed
next
  case False
  have "(int c - 65 + int n) mod 26 < 26" "(int c - 97 + int n) mod 26 < 26" by simp_all
  then have "nat (65 + (int c - 65 + int n) mod 26) < 128"
    "nat (97 + (int c - 97 + int n) mod 26) < 128" by linarith+
  with False show ?thesis by (cases "isupper L c") auto
qed


lemma shift_chars_fixed:
  "(shift_chars L n s = s) = (\<forall>c\<in>set s. isalpha L c \<longrightarrow> c < 128 \<and> n mod 26 = 0)"
proof (induction s)
  case Nil
  show ?case by simp
next
  case (Cons c cs)
  show ?case
  proof (cases "isalpha L c")
    case True
    from shift_char_fixed [OF True, of n] Cons show ?thesis
      using True by (simp add: Let_def)
  next
    case False
    with Cons show ?thesis by simp
  qed
qed

lemma unique_name_fresh: "obf |\<notin>| used \<Longrightarrow> unique_name used r obf k = obf"
  by (subst unique_name.simps) simp

lemma sorted_list_of_fset_single: "sorted_list_of_fset {|x|} = [x]"
  by (simp add: sorted_list_of_fset.rep_eq)

lemma sorted_reverse_single: "sorted_reverse k [x] = [x]"
  by (simp add: sorted_reverse_def)

lemma build_single:
  assumes "obfuscate_identifier L s m = Inr r" "s \<noteq> []" "s \<notin> exclude"
  shows "build_class_mapping L {|s|} m (Some exclude) = Inr [\<lparr>original = s, obfuscated = r\<rparr>]"
proof -
  have "unique_name {||} r r 1 = r" by (rule unique_name_fresh) simp
  with assms have "mapping_loop L m exclude [s] ([], {||})
      = Inr ([\<lparr>original = s, obfuscated = r\<rparr>], {|r|})"
    by simp
  then show ?thesis
    by (simp add: build_class_mapping_def sorted_list_of_fset_single sorted_reverse_single)
qed


text \<open>
  C10, as the code has it. \<open>shift\<close> returns a non-empty identifier unchanged exactly
  when every alphabetic character in it is an ASCII letter and, if there is one, the length
  is a multiple of 26 (an alphabetic character from U+0080 on is always replaced by an
  ASCII letter). For such an identifier \<open>build_class_mapping\<close> with \<open>shift\<close> gives a
  mapping whose obfuscated name is the original.
\<close>

theorem shift_identity_iff:
  "s \<noteq> [] \<Longrightarrow>
     ((obfuscate_identifier L s (py ''shift'') = Inr s)
        = (\<forall>c\<in>set s. isalpha L c \<longrightarrow> c < 128 \<and> length s mod 26 = 0))
     \<and> (obfuscate_identifier L s (py ''shift'') = Inr s \<longrightarrow> s \<notin> exclude \<longrightarrow>
          build_class_mapping L {|s|} (py ''shift'') (Some exclude)
            = Inr [\<lparr>original = s, obfuscated = s\<rparr>])"
proof (intro conjI impI)
  assume "s \<noteq> []"
  then show "(obfuscate_identifier L s (py ''shift'') = Inr s)
        = (\<forall>c\<in>set s. isalpha L c \<longrightarrow> c < 128 \<and> length s mod 26 = 0)"
    by (simp add: obfuscate_identifier_def shift_chars_fixed)
next
  assume "s \<noteq> []" "obfuscate_identifier L s (py ''shift'') = Inr s" "s \<notin> exclude"
  then show "build_class_mapping L {|s|} (py ''shift'') (Some exclude)
            = Inr [\<lparr>original = s, obfuscated = s\<rparr>]"
    by (intro build_single)
qed

definition e_acute_a25 :: pystr where
  "e_acute_a25 = 233 # py ''aaaaaaaaaaaaaaaaaaaaaaaaa''"

text \<open>
  The claim as stated, "unchanged exactly when there is no alphabetic character or the
  length is a multiple of 26", fails: the identifier below has length 26 and starts
  with U+00E9 (e with acute accent, alphabetic), which becomes \<open>g\<close>.
\<close>

lemma e_acute_a25_shift:
  "shift_chars example_lib 26 e_acute_a25 = py ''gaaaaaaaaaaaaaaaaaaaaaaaaa''"
  by (simp add: e_acute_a25_def py_def isalpha_def isupper_def ascii_upper_def
      ascii_lower_def example_lib_def latin1_alpha_def latin1_upper_def Let_def)

theorem shift_identity_cex:
  "length e_acute_a25 mod 26 = 0
   \<and> obfuscate_identifier example_lib e_acute_a25 (py ''shift'')
       = Inr (py ''gaaaaaaaaaaaaaaaaaaaaaaaaa'')
   \<and> py ''gaaaaaaaaaaaaaaaaaaaaaaaaa'' \<noteq> e_acute_a25"
proof -
  have len: "length e_acute_a25 = 26" by (simp add: e_acute_a25_def py_def)
  have ne: "e_acute_a25 \<noteq> []" by (simp add: e_acute_a25_def)
  have "py ''gaaaaaaaaaaaaaaaaaaaaaaaaa'' \<noteq> e_acute_a25"
    by (simp add: e_acute_a25_def py_def)
  with len ne e_acute_a25_shift show ?thesis
    by (simp add: obfuscate_identifier_def)
qed

theorem shift_identity_witness:
  "(obfuscate_identifier example_lib (py ''_1'') (py ''shift'') = Inr (py ''_1''))
   \<and> build_class_mapping example_lib {|py ''_1''|} (py ''shift'') (Some {})
            = Inr [\<lparr>original = py ''_1'', obfuscated = py ''_1''\<rparr>]"
proof -
  have ne: "py ''_1'' \<noteq> []" by (simp add: py_def)
  have na: "\<forall>c\<in>set (py ''_1''). isalpha example_lib c \<longrightarrow> c < 128 \<and> length (py ''_1'') mod 26 = 0"
    by (simp add: py_def isalpha_def ascii_upper_def ascii_lower_def)
  from shift_identity_iff [OF ne, of example_lib "{}"] na show ?thesis by simp
qed

subsection \<open>The mapping builder\<close>

lemma unique_name_not_used: "unique_name used r obf k |\<notin>| used"
proof (induction used r obf k rule: unique_name.induct)
  case (1 used r obf k)
  show ?case
  proof (cases "obf |\<in>| used")
    case True
    with "1.IH" show ?thesis by (subst unique_name.simps) simp
  next
    case False
    then show ?thesis by (subst unique_name.simps) simp
  qed
qed

lemma unique_name_form:
  "unique_name used r obf k = obf \<or> (\<exists>j\<ge>k. unique_name used r obf k = suffixed r j)"
proof (induction used r obf k rule: unique_name.induct)
  case (1 used r obf k)
  show ?case
  proof (cases "obf |\<in>| used")
    case True
    from "1.IH" [OF True]
    have "unique_name used r (suffixed r k) (k + 1) = suffixed r k
       \<or> (\<exists>j\<ge>k + 1. unique_name used r (suffixed r k) (k + 1) = suffixed r j)" .
    then have "\<exists>j\<ge>k. unique_name used r (suffixed r k) (k + 1) = suffixed r j"
    proof
      assume "unique_name used r (suffixed r k) (k + 1) = suffixed r k"
      then show ?thesis by blast
    next
      assume "\<exists>j\<ge>k + 1. unique_name used r (suffixed r k) (k + 1) = suffixed r j"
      then obtain j where "k + 1 \<le> j" "unique_name used r (suffixed r k) (k + 1) = suffixed r j"
        by blast
      then have "k \<le> j \<and> unique_name used r (suffixed r k) (k + 1) = suffixed r j" by simp
      then show ?thesis by blast
    qed
    with True show ?thesis by (subst (1 2) unique_name.simps) simp
  next
    case False
    then show ?thesis by (subst unique_name.simps) simp
  qed
qed

text \<open>The invariant of the loop: the names given so far are pairwise different and
  \<open>used_names\<close> holds exactly them.\<close>

definition mapping_inv :: "ClassMapping list \<times> pystr fset \<Rightarrow> bool" where
  "mapping_inv st = (distinct (map obfuscated (fst st)) \<and> fset (snd st) = set (map obfuscated (fst st)))"

lemma mapping_loop_inv:
  "mapping_loop L m ex cs st = Inr st' \<Longrightarrow> mapping_inv st \<Longrightarrow> mapping_inv st'"
proof (induction cs arbitrary: st)
  case Nil
  then show ?case by (cases st) simp
next
  case (Cons c cs)
  obtain ms used where st: "st = (ms, used)" by (cases st)
  show ?case
  proof (cases "c = [] \<or> c \<in> ex")
    case True
    with Cons st show ?thesis by simp
  next
    case False
    show ?thesis
    proof (cases "obfuscate_identifier L c m")
      case (Inl e)
      with Cons.prems False st show ?thesis by simp
    next
      case (Inr r)
      let ?u = "unique_name used r r 1"
      let ?st = "(ms @ [\<lparr>original = c, obfuscated = ?u\<rparr>], finsert ?u used)"
      from Cons.prems(1) False st Inr have run: "mapping_loop L m ex cs ?st = Inr st'"
        by (simp add: Let_def)
      have "?u |\<notin>| used" by (rule unique_name_not_used)
      with Cons.prems(2) st have "mapping_inv ?st"
        by (auto simp: mapping_inv_def)
      with Cons.IH [OF run] show ?thesis .
    qed
  qed
qed

lemma mapping_loop_originals:
  "mapping_loop L m ex cs (ms, used) = Inr (ms', used') \<Longrightarrow>
     map original ms' = map original ms @ filter (\<lambda>c. c \<noteq> [] \<and> c \<notin> ex) cs"
proof (induction cs arbitrary: ms used)
  case Nil
  then show ?case by simp
next
  case (Cons c cs)
  show ?case
  proof (cases "c = [] \<or> c \<in> ex")
    case True
    with Cons show ?thesis by auto
  next
    case False
    show ?thesis
    proof (cases "obfuscate_identifier L c m")
      case (Inl e)
      with Cons.prems False show ?thesis by simp
    next
      case (Inr r)
      let ?u = "unique_name used r r 1"
      from Cons.prems False Inr
      have "mapping_loop L m ex cs (ms @ [\<lparr>original = c, obfuscated = ?u\<rparr>], finsert ?u used)
              = Inr (ms', used')"
        by (simp add: Let_def)
      from Cons.IH [OF this] False show ?thesis by simp
    qed
  qed
qed

definition suffix_form :: "pylib \<Rightarrow> pystr \<Rightarrow> ClassMapping \<Rightarrow> bool" where
  "suffix_form L m x =
     (\<exists>r. obfuscate_identifier L (original x) m = Inr r
        \<and> (obfuscated x = r \<or> (\<exists>k\<ge>1. obfuscated x = suffixed r k)))"

lemma mapping_loop_form:
  "mapping_loop L m ex cs (ms, used) = Inr (ms', used') \<Longrightarrow>
     list_all (suffix_form L m) ms \<Longrightarrow> list_all (suffix_form L m) ms'"
proof (induction cs arbitrary: ms used)
  case Nil
  then show ?case by simp
next
  case (Cons c cs)
  show ?case
  proof (cases "c = [] \<or> c \<in> ex")
    case True
    with Cons show ?thesis by auto
  next
    case False
    show ?thesis
    proof (cases "obfuscate_identifier L c m")
      case (Inl e)
      with Cons.prems False show ?thesis by simp
    next
      case (Inr r)
      let ?u = "unique_name used r r 1"
      from Cons.prems(1) False Inr
      have run: "mapping_loop L m ex cs (ms @ [\<lparr>original = c, obfuscated = ?u\<rparr>], finsert ?u used)
              = Inr (ms', used')"
        by (simp add: Let_def)
      from unique_name_form [of used r r 1] Inr
      have "suffix_form L m \<lparr>original = c, obfuscated = ?u\<rparr>"
        by (auto simp: suffix_form_def)
      with Cons.prems(2) have "list_all (suffix_form L m) (ms @ [\<lparr>original = c, obfuscated = ?u\<rparr>])"
        by simp
      from Cons.IH [OF run this] show ?thesis .
    qed
  qed
qed

lemma mapping_loop_total:
  "(\<forall>c\<in>set cs. c \<noteq> [] \<and> c \<notin> ex \<longrightarrow> (\<exists>r. obfuscate_identifier L c m = Inr r)) \<Longrightarrow>
     \<exists>st'. mapping_loop L m ex cs st = Inr st'"
proof (induction cs arbitrary: st)
  case Nil
  then show ?case by (cases st) simp
next
  case (Cons c cs)
  obtain ms used where st: "st = (ms, used)" by (cases st)
  from Cons.prems have rest: "\<forall>c\<in>set cs. c \<noteq> [] \<and> c \<notin> ex \<longrightarrow> (\<exists>r. obfuscate_identifier L c m = Inr r)"
    by simp
  show ?case
  proof (cases "c = [] \<or> c \<in> ex")
    case True
    with Cons.IH [OF rest] st show ?thesis by simp
  next
    case False
    with Cons.prems obtain r where "obfuscate_identifier L c m = Inr r" by auto
    with False Cons.IH [OF rest] st show ?thesis by (simp add: Let_def)
  qed
qed

lemma obfuscate_identifier_total:
  assumes "m = py ''shift'' \<or> ((m = py ''hash'' \<or> m = py ''hex'') \<and> \<not> list_ex is_surrogate c)"
  shows "\<exists>r. obfuscate_identifier L c m = Inr r"
  using assms by (auto simp: obfuscate_identifier_def encode_utf8_def)

lemma insort_key_sorted_wrt:
  fixes f :: "'a \<Rightarrow> nat"
  assumes "sorted_wrt (\<lambda>a b. f a < f b \<or> (f a = f b \<and> P a b)) zs" "\<forall>z\<in>set zs. P x z"
  shows "sorted_wrt (\<lambda>a b. f a < f b \<or> (f a = f b \<and> P a b)) (insort_key f x zs)"
  using assms
proof (induction zs)
  case Nil
  then show ?case by simp
next
  case (Cons y ys)
  show ?case
  proof (cases "f x \<le> f y")
    case True
    have "\<forall>z\<in>set (y # ys). f x < f z \<or> (f x = f z \<and> P x z)"
    proof
      fix z assume z: "z \<in> set (y # ys)"
      with Cons.prems(1) have "f y \<le> f z" by auto
      with True have "f x \<le> f z" by simp
      moreover from Cons.prems(2) z have "P x z" by blast
      ultimately show "f x < f z \<or> (f x = f z \<and> P x z)" by auto
    qed
    with True Cons.prems(1) show ?thesis by simp
  next
    case False
    from Cons.prems have "sorted_wrt (\<lambda>a b. f a < f b \<or> (f a = f b \<and> P a b)) (insort_key f x ys)"
      by (intro Cons.IH) simp_all
    with False Cons.prems(1) show ?thesis by (auto simp: set_insort_key)
  qed
qed

lemma sort_key_sorted_wrt:
  fixes f :: "'a \<Rightarrow> nat"
  shows "sorted_wrt P xs \<Longrightarrow>
     sorted_wrt (\<lambda>a b. f a < f b \<or> (f a = f b \<and> P a b)) (sort_key f xs)"
proof (induction xs)
  case Nil
  then show ?case by simp
next
  case (Cons x xs)
  then have "sorted_wrt (\<lambda>a b. f a < f b \<or> (f a = f b \<and> P a b)) (sort_key f xs)"
    and "\<forall>z\<in>set (sort_key f xs). P x z"
    by simp_all
  then show ?case by (simp add: insort_key_sorted_wrt)
qed

lemma sorted_reverse_sorted_wrt:
  assumes "sorted_wrt P xs"
  shows "sorted_wrt (\<lambda>a b. k b < k a \<or> (k a = k b \<and> P a b)) (sorted_reverse k xs)"
proof -
  from assms have "sorted_wrt (\<lambda>a b. P b a) (rev xs)" by (simp add: sorted_wrt_rev)
  then have "sorted_wrt (\<lambda>a b. k a < k b \<or> (k a = k b \<and> P b a)) (sort_key k (rev xs))"
    by (rule sort_key_sorted_wrt)
  then have "sorted_wrt (\<lambda>b a. k a < k b \<or> (k a = k b \<and> P b a)) (sorted_reverse k xs)"
    by (simp add: sorted_reverse_def sorted_wrt_rev)
  then show ?thesis
    by (rule sorted_wrt_mono_rel [rotated]) auto
qed

lemma mset_sorted_reverse: "mset (sorted_reverse k xs) = mset xs"
  by (simp add: sorted_reverse_def)

lemma set_sorted_reverse: "set (sorted_reverse k xs) = set xs"
  by (simp add: sorted_reverse_def)

lemma distinct_map_sorted_reverse:
  "distinct (map g (sorted_reverse k xs)) = distinct (map g xs)"
proof -
  have "mset (map g (sorted_reverse k xs)) = mset (map g xs)"
    by (simp add: mset_sorted_reverse)
  then show ?thesis by (rule mset_eq_imp_distinct_iff)
qed

lemma strict_sorted_list_of_fset: "sorted_wrt (<) (sorted_list_of_fset S)"
  by (simp add: sorted_list_of_fset.rep_eq)

lemma build_class_mapping_Inr:
  assumes "build_class_mapping L S m exclude = Inr ms"
  obtains ms0 used where
    "mapping_loop L m (case exclude of None \<Rightarrow> {} | Some e \<Rightarrow> e) (sorted_list_of_fset S) ([], {||})
       = Inr (ms0, used)"
    and "ms = sorted_reverse (\<lambda>x. length (original x)) ms0"
  using assms
  by (auto simp: build_class_mapping_def Let_def split: sum.splits prod.splits)

text \<open>
  The candidates that the loop \<open>while obfuscated in used_names\<close> tries for a raw transform
  \<open>r\<close>, in this order: \<open>r\<close> itself, then \<open>r_1\<close>, \<open>r_2\<close>, ...
\<close>

definition candidate :: "pystr \<Rightarrow> nat \<Rightarrow> pystr" where
  "candidate r p = (if p = 0 then r else suffixed r p)"

lemma unique_name_first:
  "(unique_name used r obf k = obf \<and> obf |\<notin>| used)
   \<or> (obf |\<in>| used \<and> (\<exists>j\<ge>k. unique_name used r obf k = suffixed r j
         \<and> (\<forall>i. k \<le> i \<and> i < j \<longrightarrow> suffixed r i |\<in>| used)))"
proof (induction used r obf k rule: unique_name.induct)
  case (1 used r obf k)
  show ?case
  proof (cases "obf |\<in>| used")
    case False
    then show ?thesis by (subst unique_name.simps) simp
  next
    case True
    let ?u = "unique_name used r (suffixed r k) (k + 1)"
    have step: "unique_name used r obf k = ?u"
      using True by (subst unique_name.simps) simp
    from "1.IH" [OF True]
    have "(?u = suffixed r k \<and> suffixed r k |\<notin>| used)
       \<or> (suffixed r k |\<in>| used \<and> (\<exists>j\<ge>k + 1. ?u = suffixed r j
             \<and> (\<forall>i. k + 1 \<le> i \<and> i < j \<longrightarrow> suffixed r i |\<in>| used)))" .
    then have "\<exists>j\<ge>k. ?u = suffixed r j \<and> (\<forall>i. k \<le> i \<and> i < j \<longrightarrow> suffixed r i |\<in>| used)"
    proof
      assume "?u = suffixed r k \<and> suffixed r k |\<notin>| used"
      then have "k \<le> k \<and> ?u = suffixed r k
          \<and> (\<forall>i. k \<le> i \<and> i < k \<longrightarrow> suffixed r i |\<in>| used)" by auto
      then show ?thesis by blast
    next
      assume "suffixed r k |\<in>| used \<and> (\<exists>j\<ge>k + 1. ?u = suffixed r j
             \<and> (\<forall>i. k + 1 \<le> i \<and> i < j \<longrightarrow> suffixed r i |\<in>| used))"
      then obtain j where k: "suffixed r k |\<in>| used" and j: "k + 1 \<le> j" "?u = suffixed r j"
        and rest: "\<forall>i. k + 1 \<le> i \<and> i < j \<longrightarrow> suffixed r i |\<in>| used" by blast
      have "\<forall>i. k \<le> i \<and> i < j \<longrightarrow> suffixed r i |\<in>| used"
      proof (intro allI impI)
        fix i assume i: "k \<le> i \<and> i < j"
        show "suffixed r i |\<in>| used"
        proof (cases "i = k")
          case True
          with k show ?thesis by simp
        next
          case False
          with i have "k + 1 \<le> i \<and> i < j" by simp
          with rest show ?thesis by blast
        qed
      qed
      with j have "k \<le> j \<and> ?u = suffixed r j
          \<and> (\<forall>i. k \<le> i \<and> i < j \<longrightarrow> suffixed r i |\<in>| used)" by simp
      then show ?thesis by blast
    qed
    with True step show ?thesis by simp
  qed
qed

lemma unique_name_candidate:
  "\<exists>p. unique_name used r r 1 = candidate r p \<and> (\<forall>q<p. candidate r q |\<in>| used)"
proof -
  from unique_name_first [of used r r 1]
  show ?thesis
  proof
    assume "unique_name used r r 1 = r \<and> r |\<notin>| used"
    then have "unique_name used r r 1 = candidate r 0 \<and> (\<forall>q<0. candidate r q |\<in>| used)"
      by (simp add: candidate_def)
    then show ?thesis by blast
  next
    assume "r |\<in>| used \<and> (\<exists>j\<ge>1. unique_name used r r 1 = suffixed r j
         \<and> (\<forall>i. 1 \<le> i \<and> i < j \<longrightarrow> suffixed r i |\<in>| used))"
    then obtain j where r: "r |\<in>| used" and j: "1 \<le> j" "unique_name used r r 1 = suffixed r j"
      and rest: "\<forall>i. 1 \<le> i \<and> i < j \<longrightarrow> suffixed r i |\<in>| used" by blast
    have "\<forall>q<j. candidate r q |\<in>| used"
    proof (intro allI impI)
      fix q assume "q < j"
      with r rest show "candidate r q |\<in>| used"
        by (cases "q = 0") (simp_all add: candidate_def)
    qed
    with j have "unique_name used r r 1 = candidate r j \<and> (\<forall>q<j. candidate r q |\<in>| used)"
      by (simp add: candidate_def)
    then show ?thesis by blast
  qed
qed

text \<open>
  What the loop keeps for every mapping it has made: its name is the first candidate that
  is not the name of a mapping made before it.
\<close>

definition first_inv :: "pylib \<Rightarrow> pystr \<Rightarrow> ClassMapping list \<Rightarrow> bool" where
  "first_inv L m ms =
     (\<forall>i<length ms. \<exists>r p. obfuscate_identifier L (original (ms ! i)) m = Inr r
         \<and> obfuscated (ms ! i) = candidate r p
         \<and> (\<forall>q<p. \<exists>j<i. obfuscated (ms ! j) = candidate r q))"

lemma first_inv_snoc:
  assumes inv: "first_inv L m ms"
    and used: "fset used = set (map obfuscated ms)"
    and r: "obfuscate_identifier L c m = Inr r"
  shows "first_inv L m (ms @ [\<lparr>original = c, obfuscated = unique_name used r r 1\<rparr>])"
  unfolding first_inv_def
proof (intro allI impI)
  let ?x = "\<lparr>original = c, obfuscated = unique_name used r r 1\<rparr>"
  let ?ms = "ms @ [?x]"
  fix i assume "i < length ?ms"
  then consider "i < length ms" | "i = length ms" by fastforce
  then show "\<exists>r p. obfuscate_identifier L (original (?ms ! i)) m = Inr r
         \<and> obfuscated (?ms ! i) = candidate r p
         \<and> (\<forall>q<p. \<exists>j<i. obfuscated (?ms ! j) = candidate r q)"
  proof cases
    case 1
    with inv obtain r' p where a: "obfuscate_identifier L (original (ms ! i)) m = Inr r'"
      "obfuscated (ms ! i) = candidate r' p"
      and b: "\<forall>q<p. \<exists>j<i. obfuscated (ms ! j) = candidate r' q"
      unfolding first_inv_def by blast
    have nth: "?ms ! i = ms ! i" using 1 by (simp add: nth_append)
    have "\<forall>q<p. \<exists>j<i. obfuscated (?ms ! j) = candidate r' q"
    proof (intro allI impI)
      fix q assume "q < p"
      with b obtain j where "j < i" "obfuscated (ms ! j) = candidate r' q" by blast
      with 1 have "j < i \<and> obfuscated (?ms ! j) = candidate r' q" by (simp add: nth_append)
      then show "\<exists>j<i. obfuscated (?ms ! j) = candidate r' q" by blast
    qed
    with a show ?thesis unfolding nth by blast
  next
    case 2
    from unique_name_candidate [of used r] obtain p where
      p: "unique_name used r r 1 = candidate r p" and q: "\<forall>q<p. candidate r q |\<in>| used" by blast
    have "\<forall>q<p. \<exists>j<i. obfuscated (?ms ! j) = candidate r q"
    proof (intro allI impI)
      fix q assume "q < p"
      with q have "candidate r q \<in> fset used" by simp
      with used have "candidate r q \<in> set (map obfuscated ms)" by simp
      then obtain j where "j < length ms" "obfuscated (ms ! j) = candidate r q"
        by (auto simp: in_set_conv_nth)
      with 2 have "j < i \<and> obfuscated (?ms ! j) = candidate r q" by (simp add: nth_append)
      then show "\<exists>j<i. obfuscated (?ms ! j) = candidate r q" by blast
    qed
    moreover have "?ms ! i = ?x" using 2 by simp
    moreover have "obfuscate_identifier L (original ?x) m = Inr r" using r by simp
    moreover have "obfuscated ?x = candidate r p" using p by simp
    ultimately show ?thesis by metis
  qed
qed

lemma mapping_loop_first:
  "mapping_loop L m ex cs (ms, used) = Inr (ms', used') \<Longrightarrow>
     fset used = set (map obfuscated ms) \<Longrightarrow> first_inv L m ms \<Longrightarrow> first_inv L m ms'"
proof (induction cs arbitrary: ms used)
  case Nil
  then show ?case by simp
next
  case (Cons c cs)
  show ?case
  proof (cases "c = [] \<or> c \<in> ex")
    case True
    with Cons show ?thesis by auto
  next
    case False
    show ?thesis
    proof (cases "obfuscate_identifier L c m")
      case (Inl e)
      with Cons.prems False show ?thesis by simp
    next
      case (Inr r)
      let ?u = "unique_name used r r 1"
      let ?ms = "ms @ [\<lparr>original = c, obfuscated = ?u\<rparr>]"
      from Cons.prems(1) False Inr
      have run: "mapping_loop L m ex cs (?ms, finsert ?u used) = Inr (ms', used')"
        by (simp add: Let_def)
      from Cons.prems(2) have used: "fset (finsert ?u used) = set (map obfuscated ?ms)"
        by simp
      from first_inv_snoc [OF Cons.prems(3) Cons.prems(2) Inr]
      have "first_inv L m ?ms" .
      from Cons.IH [OF run used this] show ?thesis .
    qed
  qed
qed

text \<open>
  In the returned list: the name of a mapping is a candidate of its raw transform, and
  every candidate before it is the name of a mapping whose original comes earlier in the
  scan, which goes through the names in ascending order.
\<close>

definition first_free :: "pylib \<Rightarrow> pystr \<Rightarrow> ClassMapping list \<Rightarrow> ClassMapping \<Rightarrow> bool" where
  "first_free L m ms x =
     (\<exists>r p. obfuscate_identifier L (original x) m = Inr r \<and> obfuscated x = candidate r p
        \<and> (\<forall>q<p. \<exists>y\<in>set ms. original y < original x \<and> obfuscated y = candidate r q))"

lemma first_inv_first_free:
  assumes inv: "first_inv L m ms" and sorted: "sorted_wrt (\<lambda>a b. original a < original b) ms"
    and x: "x \<in> set ms"
  shows "first_free L m ms x"
proof -
  from x obtain i where i: "i < length ms" "x = ms ! i" by (auto simp: in_set_conv_nth)
  with inv obtain r p where a: "obfuscate_identifier L (original x) m = Inr r"
    "obfuscated x = candidate r p"
    and b: "\<forall>q<p. \<exists>j<i. obfuscated (ms ! j) = candidate r q"
    unfolding first_inv_def by blast
  have "\<forall>q<p. \<exists>y\<in>set ms. original y < original x \<and> obfuscated y = candidate r q"
  proof (intro allI impI)
    fix q assume "q < p"
    with b obtain j where j: "j < i" "obfuscated (ms ! j) = candidate r q" by blast
    from sorted_wrt_nth_less [OF sorted j(1) i(1)] i(2)
    have "original (ms ! j) < original x" by simp
    moreover from j(1) i(1) have "ms ! j \<in> set ms" by simp
    ultimately show "\<exists>y\<in>set ms. original y < original x \<and> obfuscated y = candidate r q"
      using j(2) by blast
  qed
  with a show ?thesis unfolding first_free_def by blast
qed

text \<open>
  C2. Whatever the set of class names, the method and the exclusion set, a list that
  \<open>build_class_mapping\<close> returns holds exactly one mapping for every class name that is
  neither empty nor excluded, and its obfuscated names are pairwise different. Each of them
  is the raw transform of its original or that transform followed by \<open>_k\<close> for a counter
  \<open>k\<close> from 1 on (\<open>suffix_form\<close>), namely the first of the candidates \<open>r\<close>, \<open>r_1\<close>,
  \<open>r_2\<close>, ... that is not the name of any mapping made earlier in the scan, whatever the
  original of that mapping (\<open>first_free\<close>). With a valid method the function does return a
  list (the loop over the counters ends; \<open>hash\<close> and \<open>hex\<close> need names that \<open>encode\<close>
  accepts).
\<close>

theorem build_class_mapping_distinct:
  "(\<forall>ms. build_class_mapping L all_classes m exclude = Inr ms \<longrightarrow>
        distinct (map obfuscated ms)
      \<and> distinct (map original ms)
      \<and> set (map original ms)
          = {c \<in> fset all_classes. c \<noteq> [] \<and> c \<notin> (case exclude of None \<Rightarrow> {} | Some e \<Rightarrow> e)}
      \<and> list_all (suffix_form L m) ms
      \<and> list_all (first_free L m ms) ms)
   \<and> (m = py ''shift''
        \<or> ((m = py ''hash'' \<or> m = py ''hex'')
           \<and> (\<forall>c\<in>fset all_classes. \<not> list_ex is_surrogate c))
      \<longrightarrow> (\<exists>ms. build_class_mapping L all_classes m exclude = Inr ms))"
proof (intro conjI allI impI)
  fix ms
  let ?ex = "case exclude of None \<Rightarrow> {} | Some e \<Rightarrow> e"
  assume "build_class_mapping L all_classes m exclude = Inr ms"
  then obtain ms0 used where
    run: "mapping_loop L m ?ex (sorted_list_of_fset all_classes) ([], {||}) = Inr (ms0, used)"
    and ms: "ms = sorted_reverse (\<lambda>x. length (original x)) ms0"
    by (rule build_class_mapping_Inr)
  have "mapping_inv ([], {||})" by (simp add: mapping_inv_def)
  with run have "mapping_inv (ms0, used)" by (rule mapping_loop_inv)
  then show "distinct (map obfuscated ms)"
    by (simp add: ms distinct_map_sorted_reverse mapping_inv_def)
  from mapping_loop_originals [OF run]
  have orig: "map original ms0
      = filter (\<lambda>c. c \<noteq> [] \<and> c \<notin> ?ex) (sorted_list_of_fset all_classes)"
    by simp
  have "distinct (map original ms0)"
    unfolding orig by (simp add: sorted_list_of_fset.rep_eq)
  then show "distinct (map original ms)"
    by (simp add: ms distinct_map_sorted_reverse)
  have "set (map original ms) = set (map original ms0)"
    by (simp add: ms set_sorted_reverse)
  also have "\<dots> = {c \<in> fset all_classes. c \<noteq> [] \<and> c \<notin> ?ex}"
    unfolding orig by auto
  finally show "set (map original ms) = {c \<in> fset all_classes. c \<noteq> [] \<and> c \<notin> ?ex}" .
  from run have "list_all (suffix_form L m) ms0"
    by (rule mapping_loop_form) simp
  then show "list_all (suffix_form L m) ms"
    by (simp add: ms list_all_iff set_sorted_reverse)
  have "fset {||} = set (map obfuscated [])" and "first_inv L m []"
    by (simp_all add: first_inv_def)
  with run have inv: "first_inv L m ms0" by (rule mapping_loop_first)
  have "sorted_wrt (<) (map original ms0)"
    unfolding orig by (intro sorted_wrt_filter strict_sorted_list_of_fset)
  then have sorted: "sorted_wrt (\<lambda>a b. original a < original b) ms0"
    by (simp add: sorted_wrt_map)
  have "\<forall>x\<in>set ms0. first_free L m ms0 x"
    using first_inv_first_free [OF inv sorted] by blast
  moreover have "first_free L m ms = first_free L m ms0"
    by (simp add: first_free_def ms set_sorted_reverse fun_eq_iff)
  ultimately show "list_all (first_free L m ms) ms"
    by (simp add: list_all_iff ms set_sorted_reverse)
next
  assume ok: "m = py ''shift''
        \<or> ((m = py ''hash'' \<or> m = py ''hex'')
           \<and> (\<forall>c\<in>fset all_classes. \<not> list_ex is_surrogate c))"
  let ?ex = "case exclude of None \<Rightarrow> {} | Some e \<Rightarrow> e"
  have "\<forall>c\<in>set (sorted_list_of_fset all_classes).
          c \<noteq> [] \<and> c \<notin> ?ex \<longrightarrow> (\<exists>r. obfuscate_identifier L c m = Inr r)"
  proof (intro ballI impI)
    fix c assume "c \<in> set (sorted_list_of_fset all_classes)"
    then have "c \<in> fset all_classes" by simp
    with ok have "m = py ''shift''
        \<or> ((m = py ''hash'' \<or> m = py ''hex'') \<and> \<not> list_ex is_surrogate c)" by blast
    then show "\<exists>r. obfuscate_identifier L c m = Inr r" by (rule obfuscate_identifier_total)
  qed
  then obtain st' where
    "mapping_loop L m ?ex (sorted_list_of_fset all_classes) ([], {||}) = Inr st'"
    using mapping_loop_total by blast
  then show "\<exists>ms. build_class_mapping L all_classes m exclude = Inr ms"
    by (cases st') (simp add: build_class_mapping_def Let_def)
qed

text \<open>
  C3. The list that \<open>build_class_mapping\<close> returns is ordered by the length of the
  original, longest first, and originals of the same length stand in ascending
  lexicographic order.
\<close>

theorem build_class_mapping_ordered:
  assumes "build_class_mapping L all_classes m exclude = Inr ms"
  shows "sorted_wrt (\<lambda>a b. length (original b) < length (original a)
            \<or> (length (original a) = length (original b) \<and> original a < original b)) ms"
proof -
  let ?ex = "case exclude of None \<Rightarrow> {} | Some e \<Rightarrow> e"
  from assms obtain ms0 used where
    run: "mapping_loop L m ?ex (sorted_list_of_fset all_classes) ([], {||}) = Inr (ms0, used)"
    and ms: "ms = sorted_reverse (\<lambda>x. length (original x)) ms0"
    by (rule build_class_mapping_Inr)
  from mapping_loop_originals [OF run]
  have orig: "map original ms0
      = filter (\<lambda>c. c \<noteq> [] \<and> c \<notin> ?ex) (sorted_list_of_fset all_classes)"
    by simp
  have "sorted_wrt (<) (map original ms0)"
    unfolding orig by (intro sorted_wrt_filter strict_sorted_list_of_fset)
  then have "sorted_wrt (\<lambda>a b. original a < original b) ms0"
    by (simp add: sorted_wrt_map)
  from sorted_reverse_sorted_wrt [OF this, of "\<lambda>x. length (original x)"]
  show ?thesis by (simp add: ms)
qed

text \<open>
  An example with collisions and an exclusion: under \<open>shift\<close> the names \<open>g\<close> and
  U+00E9 both become \<open>h\<close>, the first suffixed candidate \<open>h_1\<close> is already the name of
  \<open>e_1\<close>, and the class \<open>skip\<close> is excluded.
\<close>

definition collision_classes :: "pystr fset" where
  "collision_classes = {|py ''g'', [233], py ''skip'', py ''e_1''|}"

lemma collision_sorted:
  "sorted_list_of_fset collision_classes = [py ''e_1'', py ''g'', py ''skip'', [233]]"
  by (simp add: collision_classes_def py_def sorted_list_of_fset.rep_eq)

lemma collision_transforms:
  "obfuscate_identifier example_lib (py ''e_1'') (py ''shift'') = Inr (py ''h_1'')"
  "obfuscate_identifier example_lib (py ''g'') (py ''shift'') = Inr (py ''h'')"
  "obfuscate_identifier example_lib [233] (py ''shift'') = Inr (py ''h'')"
  by (simp_all add: obfuscate_identifier_def py_def isalpha_def isupper_def ascii_upper_def
      ascii_lower_def example_lib_def latin1_alpha_def latin1_upper_def Let_def)

lemma unique_name_step:
  "obf |\<in>| used \<Longrightarrow>
     unique_name used r obf k = unique_name used r (suffixed r k) (k + 1)"
  by (subst unique_name.simps) simp

lemma collision_unique:
  "unique_name {||} (py ''h_1'') (py ''h_1'') 1 = py ''h_1''"
  "unique_name {|py ''h_1''|} (py ''h'') (py ''h'') 1 = py ''h''"
  "unique_name {|py ''h'', py ''h_1''|} (py ''h'') (py ''h'') 1 = py ''h_2''"
proof -
  show "unique_name {||} (py ''h_1'') (py ''h_1'') 1 = py ''h_1''"
    by (rule unique_name_fresh) simp
  show "unique_name {|py ''h_1''|} (py ''h'') (py ''h'') 1 = py ''h''"
    by (rule unique_name_fresh) (simp add: py_def)
  let ?U = "{|py ''h'', py ''h_1''|}"
  have s1: "suffixed (py ''h'') 1 = py ''h_1''"
    and s2: "suffixed (py ''h'') (1 + 1) = py ''h_2''"
    by (simp_all add: suffixed_def py_def str_nat_small)
  have m1: "py ''h'' |\<in>| ?U" by simp
  have m2: "suffixed (py ''h'') 1 |\<in>| ?U" unfolding s1 by simp
  have f: "suffixed (py ''h'') (1 + 1) |\<notin>| ?U" unfolding s2 by (simp add: py_def)
  note unique_name_step [OF m1, of "py ''h''" 1]
  also note unique_name_step [OF m2, of "py ''h''" "1 + 1"]
  also note unique_name_fresh [OF f, of "py ''h''" "1 + 1 + 1"]
  also note s2
  finally show "unique_name ?U (py ''h'') (py ''h'') 1 = py ''h_2''" .
qed

lemma collision_loop:
  "mapping_loop example_lib (py ''shift'') {py ''skip''} [py ''e_1'', py ''g'', py ''skip'', [233]]
       ([], {||})
     = Inr ([\<lparr>original = py ''e_1'', obfuscated = py ''h_1''\<rparr>,
             \<lparr>original = py ''g'', obfuscated = py ''h''\<rparr>,
             \<lparr>original = [233], obfuscated = py ''h_2''\<rparr>],
            {|py ''h_2'', py ''h'', py ''h_1''|})"
proof -
  have ne: "py ''e_1'' \<noteq> []" "py ''g'' \<noteq> []" "py ''skip'' \<noteq> []" "[233] \<noteq> py ''skip''"
    by (simp_all add: py_def)
  show ?thesis
    by (simp add: ne collision_transforms collision_unique [unfolded One_nat_def] Let_def)
qed

lemma collision_build:
  "build_class_mapping example_lib collision_classes (py ''shift'') (Some {py ''skip''})
     = Inr [\<lparr>original = py ''e_1'', obfuscated = py ''h_1''\<rparr>,
            \<lparr>original = py ''g'', obfuscated = py ''h''\<rparr>,
            \<lparr>original = [233], obfuscated = py ''h_2''\<rparr>]"
proof -
  have "build_class_mapping example_lib collision_classes (py ''shift'') (Some {py ''skip''})
     = Inr (sorted_reverse (\<lambda>x. length (original x))
            [\<lparr>original = py ''e_1'', obfuscated = py ''h_1''\<rparr>,
             \<lparr>original = py ''g'', obfuscated = py ''h''\<rparr>,
             \<lparr>original = [233], obfuscated = py ''h_2''\<rparr>])"
    by (simp only: build_class_mapping_def collision_sorted Let_def option.case collision_loop
        sum.case prod.case)
  then show ?thesis by (simp add: sorted_reverse_def py_def)
qed


theorem build_class_mapping_distinct_witness:
  "\<exists>ms. build_class_mapping example_lib collision_classes (py ''shift'') (Some {py ''skip''})
          = Inr ms
     \<and> distinct (map obfuscated ms) \<and> list_all (suffix_form example_lib (py ''shift'')) ms
     \<and> list_all (first_free example_lib (py ''shift'') ms) ms
     \<and> map original ms = [py ''e_1'', py ''g'', [233]]
     \<and> map obfuscated ms = [py ''h_1'', py ''h'', py ''h_2'']"
  using build_class_mapping_distinct [of example_lib collision_classes "py ''shift''"
      "Some {py ''skip''}"]
  by (simp add: collision_build)

theorem build_class_mapping_ordered_witness:
  "sorted_wrt (\<lambda>a b. length (original b) < length (original a)
            \<or> (length (original a) = length (original b) \<and> original a < original b))
     [\<lparr>original = py ''e_1'', obfuscated = py ''h_1''\<rparr>,
      \<lparr>original = py ''g'', obfuscated = py ''h''\<rparr>,
      \<lparr>original = [233], obfuscated = py ''h_2''\<rparr>]"
  by (rule build_class_mapping_ordered [OF collision_build])

subsection \<open>Rewriting CSS\<close>

lemma word_ascii:
  "c < 128 \<Longrightarrow> is_word L c = (ascii_upper c \<or> ascii_lower c \<or> ascii_digit c \<or> c = 95)"
  by (simp add: is_word_def isalnum_def)

text \<open>
  C1 does not hold of the code. The hyphen is not a word character, so \<open>\b\<close> holds
  between \<open>btn\<close> and \<open>-primary\<close>: with the single mapping of \<open>btn\<close> to \<open>ewq\<close> the
  selector \<open>.btn-primary\<close> is rewritten to \<open>.ewq-primary\<close>, whatever the libraries are.
\<close>

theorem process_css_content_btn_primary:
  "process_css_content L (py ''.btn{color:red}.btn-primary{color:blue}'')
     [\<lparr>original = py ''btn'', obfuscated = py ''ewq''\<rparr>]
   = Inr (py ''.ewq{color:red}.ewq-primary{color:blue}'')"
  by (simp add: py_def pattern_matches_def boundary_after_def word_ascii
      ascii_upper_def ascii_lower_def ascii_digit_def)

text \<open>What the word boundary does prevent: a match that a letter, a digit or an underscore
  follows.\<close>

lemma process_css_content_btnx:
  "process_css_content L (py ''.btnx{}.btn_y{}.btn2{}'')
     [\<lparr>original = py ''btn'', obfuscated = py ''ewq''\<rparr>]
   = Inr (py ''.btnx{}.btn_y{}.btn2{}'')"
  by (simp add: py_def pattern_matches_def boundary_after_def word_ascii
      ascii_upper_def ascii_lower_def ascii_digit_def)

subsection \<open>Rewriting HTML\<close>

text \<open>
  The frame of a document: its tree with every \<open>class\<close> value blanked, the \<open>href\<close> of
  every stylesheet link blanked and the text inside \<open>style\<close> elements emptied. It keeps the
  elements, their names and order, the keys of their attributes in the order of the
  dictionary, the values of all other attributes, and every text outside \<open>style\<close>
  elements.
\<close>

definition frame_attrs :: "pystr \<Rightarrow> (pystr \<times> attr_value) list \<Rightarrow> (pystr \<times> attr_value) list" where
  "frame_attrs name attrs =
     map (\<lambda>(k, v). if k = py ''class'' \<or> (k = py ''href'' \<and> is_stylesheet_link name attrs)
                     then (k, AStr []) else (k, v)) attrs"

fun frame :: "bool \<Rightarrow> node \<Rightarrow> node" where
  "frame in_style (NavigableString s) = NavigableString (if in_style then [] else s)"
| "frame in_style (Tag name attrs contents) =
     Tag name (frame_attrs name attrs) (map (frame (in_style \<or> name = py ''style'')) contents)"

lemma map_update_blank:
  assumes "map_of a k \<noteq> None" "\<And>v v'. g (k, v) = g (k, v')"
  shows "map g (AList.update k v a) = map g a"
  using assms(1)
proof (induction a)
  case Nil
  then show ?case by simp
next
  case (Cons p ps)
  show ?case
  proof (cases "fst p = k")
    case True
    then have "p = (k, snd p)" by (cases p) simp
    then have "g p = g (k, v)" using assms(2) [of "snd p" v] by simp
    with True show ?thesis by simp
  next
    case False
    with Cons show ?thesis by (cases p) (simp split: if_splits)
  qed
qed

lemma key_names: "py ''href'' \<noteq> py ''rel''" "py ''class'' \<noteq> py ''rel''" "py ''class'' \<noteq> py ''href''"
  by (simp_all add: py_def)

lemma is_stylesheet_link_update:
  "k \<noteq> py ''rel'' \<Longrightarrow> is_stylesheet_link name (AList.update k v a) = is_stylesheet_link name a"
  by (simp add: is_stylesheet_link_def update_conv')

lemma frame_attrs_update:
  assumes "map_of a k \<noteq> None"
    and "k = py ''class'' \<or> (k = py ''href'' \<and> is_stylesheet_link name a)"
  shows "frame_attrs name (AList.update k v a) = frame_attrs name a"
proof -
  from assms(2) key_names have rel: "k \<noteq> py ''rel''" by auto
  show ?thesis
    unfolding frame_attrs_def is_stylesheet_link_update [OF rel]
    by (rule map_update_blank [OF assms(1)]) (use assms(2) in auto)
qed

lemma frame_attrs_update_link:
  "is_stylesheet_link name a \<Longrightarrow> update_link L fm a = Inr a' \<Longrightarrow>
     frame_attrs name a' = frame_attrs name a"
  by (auto simp: update_link_def Let_def frame_attrs_update
      split: option.splits attr_value.splits if_splits)

lemma frame_attrs_update_class: "frame_attrs name (update_class d a) = frame_attrs name a"
  by (auto simp: update_class_def Let_def frame_attrs_update split: option.splits)

lemma frame_link:
  "link_node L fm x = Inr x' \<Longrightarrow> frame b x' = frame b x"
  "link_nodes L fm xs = Inr xs' \<Longrightarrow> map (frame b) xs' = map (frame b) xs"
proof (induction L fm x and L fm xs arbitrary: x' b and xs' b rule: link_node_link_nodes.induct)
  case (1 L fm s)
  then show ?case by simp
next
  case (2 L fm name attrs contents)
  then show ?case
    by (auto split: sum.splits if_splits simp: frame_attrs_update_link)
next
  case (3 L fm)
  then show ?case by simp
next
  case (4 L fm x xs)
  then show ?case by (auto split: sum.splits)
qed

lemma frame_replace_string:
  "map (frame True) (replace_string contents new) = map (frame True) contents"
  by (induction contents new rule: replace_string.induct) simp_all

lemma frame_update_style:
  "update_style L ms name contents = Inr contents' \<Longrightarrow>
     map (frame (b \<or> name = py ''style'')) contents'
       = map (frame (b \<or> name = py ''style'')) contents"
  by (auto simp: update_style_def frame_replace_string split: if_splits option.splits sum.splits)

lemma frame_style:
  "style_node L ms x = Inr x' \<Longrightarrow> frame b x' = frame b x"
  "style_nodes L ms xs = Inr xs' \<Longrightarrow> map (frame b) xs' = map (frame b) xs"
proof (induction L ms x and L ms xs arbitrary: x' b and xs' b rule: style_node_style_nodes.induct)
  case (1 L ms s)
  then show ?case by simp
next
  case (2 L ms name attrs contents)
  from "2.prems" obtain c1 c2 where
    c1: "update_style L ms name contents = Inr c1"
    and c2: "style_nodes L ms c1 = Inr c2"
    and x': "x' = Tag name attrs c2"
    by (auto split: sum.splits)
  from "2.IH" [OF c1 c2, of "b \<or> name = py ''style''"] frame_update_style [OF c1, of b] x'
  show ?case by simp
next
  case (3 L ms)
  then show ?case by simp
next
  case (4 L ms x xs)
  then show ?case by (auto split: sum.splits)
qed

lemma frame_class: "frame b (class_node d x) = frame b x"
  by (induction d x arbitrary: b rule: class_node.induct) (simp_all add: frame_attrs_update_class)

lemma count_elements_frame: "count_elements (frame b x) = count_elements x"
  by (induction b x rule: frame.induct) (simp_all add: comp_def cong: map_cong)

text \<open>The three loops keep the frame and the number of elements.\<close>

lemma rewrite_soup_frame:
  assumes "rewrite_soup L mappings css_files output_suffix soup = Inr soup'"
  shows "map (frame False) soup' = map (frame False) soup
    \<and> sum_list (map count_elements soup') = sum_list (map count_elements soup)"
proof -
  from assms obtain s1 s2 where
    s1: "link_nodes L (css_file_mapping L css_files output_suffix) soup = Inr s1"
    and s2: "style_nodes L mappings s1 = Inr s2"
    and s3: "soup' = map (class_node (class_dict mappings)) s2"
    by (auto simp: rewrite_soup_def split: sum.splits)
  have "map (frame False) soup' = map (frame False) s2" by (simp add: s3 frame_class)
  also have "\<dots> = map (frame False) s1" by (rule frame_style(2) [OF s2])
  also have "\<dots> = map (frame False) soup" by (rule frame_link(2) [OF s1])
  finally have fr: "map (frame False) soup' = map (frame False) soup" .
  have "map count_elements soup' = map (count_elements \<circ> frame False) soup'"
    by (simp add: count_elements_frame)
  also have "\<dots> = map count_elements (map (frame False) soup')" by simp
  also have "\<dots> = map count_elements (map (frame False) soup)" by (simp only: fr)
  also have "\<dots> = map count_elements soup" by (simp add: count_elements_frame)
  finally show ?thesis using fr by simp
qed

text \<open>
  C4. The document that \<open>process_html_content\<close> returns is the text \<open>str(soup)\<close> of the
  tree that \<open>BeautifulSoup\<close> parsed from the content, after the three loops; and the loops
  keep the frame of that tree: the same elements in the same order, the same number of
  them, the same attribute keys in the same order, the same values of every attribute other
  than \<open>class\<close> and the \<open>href\<close> of a stylesheet link, and the same text outside \<open>style\<close>
  elements. What the parser makes of the content and how the serialiser writes the tree is
  the libraries' part.
\<close>

theorem process_html_content_frame:
  assumes "process_html_content L content mappings css_files output_suffix = Inr doc"
  shows "\<exists>soup soup'. soup_parse L content = Inr soup
      \<and> rewrite_soup L mappings css_files output_suffix soup = Inr soup'
      \<and> doc = soup_str L (map decode_values soup')
      \<and> map (frame False) soup' = map (frame False) soup
      \<and> sum_list (map count_elements soup') = sum_list (map count_elements soup)"
proof -
  from assms obtain soup soup' where
    "soup_parse L content = Inr soup"
    and r: "rewrite_soup L mappings css_files output_suffix soup = Inr soup'"
    and "doc = soup_str L (map decode_values soup')"
    by (auto simp: process_html_content_def split: sum.splits)
  with rewrite_soup_frame [OF r] show ?thesis by blast
qed

text \<open>
  The elements that a text writes: its start tags, a \<open><\<close> followed by a letter.
\<close>

fun start_tags :: "pystr \<Rightarrow> nat" where
  "start_tags (c # d # cs) =
     (if c = 60 \<and> (ascii_upper d \<or> ascii_lower d) then 1 else 0) + start_tags (d # cs)"
| "start_tags cs = 0"

text \<open>
  The claim as stated fails when the returned document is compared with the content: with
  no mapping and no CSS file there is nothing to edit, yet for the fragment
  \<open><p id=x class=a>hi</p>\<close>, one element, the returned document has three elements, the
  \<open>html\<close> and \<open>body\<close> of the parser around the \<open>p\<close>, and the attribute \<open>class\<close> stands
  before \<open>id\<close>.
\<close>

lemma fragment_rewrite:
  "rewrite_soup example_lib [] [] (py ''_obfuscated'') fragment_soup = Inr fragment_soup"
  by (simp add: rewrite_soup_def fragment_soup_def css_file_mapping_def class_dict_def
      is_stylesheet_link_def update_style_def update_class_def class_tokens_def dict_get_def
      Let_def)

theorem process_html_content_wraps:
  "process_html_content example_lib fragment_html [] [] (py ''_obfuscated'')
     = Inr fragment_html_written
   \<and> start_tags fragment_html = 1 \<and> start_tags fragment_html_written = 3"
proof -
  have "fragment_html \<noteq> demo_html"
    by (simp add: fragment_html_def demo_html_def py_def)
  then have p: "soup_parse example_lib fragment_html = Inr fragment_soup"
    by (simp add: example_lib_def)
  have "map decode_values fragment_soup \<noteq> map decode_values demo_soup_rewritten"
    by (simp add: fragment_soup_def demo_soup_rewritten_def)
  then have s: "soup_str example_lib (map decode_values fragment_soup) = fragment_html_written"
    by (simp add: example_lib_def)
  have "process_html_content example_lib fragment_html [] [] (py ''_obfuscated'')
     = Inr fragment_html_written"
    by (simp add: process_html_content_def p fragment_rewrite s)
  moreover have "start_tags fragment_html = 1"
    by (simp add: fragment_html_def py_def ascii_upper_def ascii_lower_def)
  moreover have "start_tags fragment_html_written = 3"
    by (simp add: fragment_html_written_def dq_def py_def ascii_upper_def ascii_lower_def)
  ultimately show ?thesis by simp
qed

text \<open>
  The example document, in which the class \<open>box\<close> has a mapping.
\<close>

definition demo_mappings :: "ClassMapping list" where
  "demo_mappings = [\<lparr>original = py ''box'', obfuscated = py ''era''\<rparr>]"

lemma demo_file_mapping:
  "css_file_mapping example_lib [py ''site/css/style.css''] (py ''_obfuscated'')
     = [py ''style.css'' \<mapsto> py ''style_obfuscated.css'']"
  by (simp add: css_file_mapping_def example_lib_def posix_name_def posix_stem_def
      posix_suffix_def py_def Let_def)

lemma demo_css: "process_css_content example_lib (py ''.box{}'') demo_mappings = Inr (py ''.era{}'')"
  by (simp add: demo_mappings_def py_def pattern_matches_def boundary_after_def word_ascii
      ascii_upper_def ascii_lower_def ascii_digit_def)


lemma demo_href:
  "py_replace (py ''css/style.css'') (py ''style.css'') (py ''style_obfuscated.css'')
     = py ''css/style_obfuscated.css''"
  by (simp add: py_replace_def py_def)

lemma demo_link:
  "link_nodes example_lib [py ''style.css'' \<mapsto> py ''style_obfuscated.css''] demo_soup
     = Inr [Tag (py ''html'') []
        [Tag (py ''head'') []
           [Tag (py ''link'')
              [(py ''rel'', AList [py ''stylesheet'']),
               (py ''href'', AStr (py ''css/style_obfuscated.css''))] [],
            Tag (py ''style'') [] [NavigableString (py ''.box{}'')]],
         Tag (py ''body'') []
           [Tag (py ''div'') [(py ''id'', AStr (py ''main'')), (py ''class'', AList [py ''box'', py ''keep''])]
              [NavigableString (py ''hi'')]]]]"
proof -
  have n: "path_name example_lib (py ''css/style.css'') = py ''style.css''"
    by (simp add: example_lib_def posix_name_def py_def)
  show ?thesis
    by (simp add: demo_soup_def is_stylesheet_link_def update_link_def n demo_href Let_def)
qed


lemma demo_style:
  "style_nodes example_lib demo_mappings
     [Tag (py ''html'') []
        [Tag (py ''head'') []
           [Tag (py ''link'')
              [(py ''rel'', AList [py ''stylesheet'']),
               (py ''href'', AStr (py ''css/style_obfuscated.css''))] [],
            Tag (py ''style'') [] [NavigableString (py ''.box{}'')]],
         Tag (py ''body'') []
           [Tag (py ''div'') [(py ''id'', AStr (py ''main'')), (py ''class'', AList [py ''box'', py ''keep''])]
              [NavigableString (py ''hi'')]]]]
   = Inr [Tag (py ''html'') []
        [Tag (py ''head'') []
           [Tag (py ''link'')
              [(py ''rel'', AList [py ''stylesheet'']),
               (py ''href'', AStr (py ''css/style_obfuscated.css''))] [],
            Tag (py ''style'') [] [NavigableString (py ''.era{}'')]],
         Tag (py ''body'') []
           [Tag (py ''div'') [(py ''id'', AStr (py ''main'')), (py ''class'', AList [py ''box'', py ''keep''])]
              [NavigableString (py ''hi'')]]]]"
  by (simp add: update_style_def demo_css)

lemma demo_class_dict: "class_dict demo_mappings = [py ''box'' \<mapsto> py ''era'']"
  by (simp add: class_dict_def demo_mappings_def)

lemma demo_rewrite:
  "rewrite_soup example_lib demo_mappings [py ''site/css/style.css''] (py ''_obfuscated'') demo_soup
     = Inr demo_soup_rewritten"
  by (simp add: rewrite_soup_def demo_file_mapping demo_link demo_style demo_class_dict
      demo_soup_rewritten_def update_class_def class_tokens_def dict_get_def Let_def
      update_style_def demo_css)

lemma demo_run:
  "process_html_content example_lib demo_html demo_mappings [py ''site/css/style.css'']
     (py ''_obfuscated'') = Inr demo_html_rewritten"
proof -
  have p: "soup_parse example_lib demo_html = Inr demo_soup"
    by (simp add: example_lib_def)
  have s: "soup_str example_lib (map decode_values demo_soup_rewritten) = demo_html_rewritten"
    by (simp add: example_lib_def)
  show ?thesis by (simp add: process_html_content_def p demo_rewrite s)
qed

theorem process_html_content_frame_witness:
  "process_html_content example_lib demo_html demo_mappings [py ''site/css/style.css'']
     (py ''_obfuscated'') = Inr demo_html_rewritten
   \<and> map (frame False) demo_soup_rewritten = map (frame False) demo_soup
   \<and> sum_list (map count_elements demo_soup_rewritten) = 6
   \<and> sum_list (map count_elements demo_soup) = 6"
proof -
  from process_html_content_frame [OF demo_run] obtain soup soup' where
    p: "soup_parse example_lib demo_html = Inr soup"
    and r: "rewrite_soup example_lib demo_mappings [py ''site/css/style.css'']
              (py ''_obfuscated'') soup = Inr soup'"
    and f: "map (frame False) soup' = map (frame False) soup"
    and n: "sum_list (map count_elements soup') = sum_list (map count_elements soup)"
    by blast
  from p have soup: "soup = demo_soup" by (simp add: example_lib_def)
  with r have soup': "soup' = demo_soup_rewritten" by (simp add: demo_rewrite)
  have "sum_list (map count_elements demo_soup) = 6" by (simp add: demo_soup_def)
  with f n demo_run show ?thesis by (simp add: soup soup')
qed

fun classes_of :: "node \<Rightarrow> pystr list list" where
  "classes_of (NavigableString s) = []"
| "classes_of (Tag name attrs contents) =
     (case map_of attrs (py ''class'') of None \<Rightarrow> [] | Some v \<Rightarrow> [class_tokens v])
     @ concat (map classes_of contents)"

lemma class_of_update_link:
  "update_link L fm a = Inr a' \<Longrightarrow> map_of a' (py ''class'') = map_of a (py ''class'')"
  by (auto simp: update_link_def Let_def update_conv'
      split: option.splits attr_value.splits if_splits)

lemma classes_link:
  "link_node L fm x = Inr x' \<Longrightarrow> classes_of x' = classes_of x"
  "link_nodes L fm xs = Inr xs' \<Longrightarrow> map classes_of xs' = map classes_of xs"
proof (induction L fm x and L fm xs arbitrary: x' and xs' rule: link_node_link_nodes.induct)
  case (1 L fm s)
  then show ?case by simp
next
  case (2 L fm name attrs contents)
  then show ?case
    by (auto split: sum.splits if_splits simp: class_of_update_link)
next
  case (3 L fm)
  then show ?case by simp
next
  case (4 L fm x xs)
  then show ?case by (auto split: sum.splits)
qed

lemma classes_replace_string:
  "map classes_of (replace_string contents new) = map classes_of contents"
  by (induction contents new rule: replace_string.induct) simp_all

lemma classes_update_style:
  "update_style L ms name contents = Inr contents' \<Longrightarrow>
     map classes_of contents' = map classes_of contents"
  by (auto simp: update_style_def classes_replace_string split: if_splits option.splits sum.splits)

lemma classes_style:
  "style_node L ms x = Inr x' \<Longrightarrow> classes_of x' = classes_of x"
  "style_nodes L ms xs = Inr xs' \<Longrightarrow> map classes_of xs' = map classes_of xs"
proof (induction L ms x and L ms xs arbitrary: x' and xs' rule: style_node_style_nodes.induct)
  case (1 L ms s)
  then show ?case by simp
next
  case (2 L ms name attrs contents)
  from "2.prems" obtain c1 c2 where
    c1: "update_style L ms name contents = Inr c1"
    and c2: "style_nodes L ms c1 = Inr c2"
    and x': "x' = Tag name attrs c2"
    by (auto split: sum.splits)
  from "2.IH" [OF c1 c2] classes_update_style [OF c1] x' show ?case by simp
next
  case (3 L ms)
  then show ?case by simp
next
  case (4 L ms x xs)
  then show ?case by (auto split: sum.splits)
qed

lemma class_of_update_class:
  "map_of (update_class d a) (py ''class'')
     = map_option (\<lambda>v. if class_tokens v = [] then v else AList (map (dict_get d) (class_tokens v)))
         (map_of a (py ''class''))"
  by (auto simp: update_class_def Let_def update_conv' split: option.splits)

lemma tokens_update_class:
  "(case map_of (update_class d a) (py ''class'') of None \<Rightarrow> [] | Some v \<Rightarrow> [class_tokens v])
     = map (map (dict_get d))
         (case map_of a (py ''class'') of None \<Rightarrow> [] | Some v \<Rightarrow> [class_tokens v])"
  by (auto simp: class_of_update_class class_tokens_def split: option.splits)

lemma classes_class: "classes_of (class_node d x) = map (map (dict_get d)) (classes_of x)"
  by (induction d x rule: class_node.induct)
    (simp_all add: tokens_update_class map_concat comp_def cong: map_cong)

lemma class_dict_snoc:
  "class_dict (ms @ [m]) = (class_dict ms)(original m \<mapsto> obfuscated m)"
  by (simp add: class_dict_def)

lemma class_dict_lookup:
  "case class_dict ms c of
     None \<Rightarrow> c \<notin> original ` set ms
   | Some v \<Rightarrow> \<exists>m\<in>set ms. original m = c \<and> obfuscated m = v"
proof (induction ms rule: rev_induct)
  case Nil
  show ?case by (simp add: class_dict_def)
next
  case (snoc m ms)
  then show ?case
    by (cases "original m = c") (auto simp: class_dict_snoc split: option.splits)
qed

lemma dict_get_class_dict:
  "(c \<notin> original ` set ms \<longrightarrow> dict_get (class_dict ms) c = c)
   \<and> (c \<in> original ` set ms \<longrightarrow>
        (\<exists>m\<in>set ms. original m = c \<and> dict_get (class_dict ms) c = obfuscated m))"
  using class_dict_lookup [where ms = ms and c = c]
  by (auto simp: dict_get_def split: option.splits)

text \<open>The three loops replace the tokens of every \<open>class\<close> through the lookup.\<close>

lemma rewrite_soup_classes:
  assumes "rewrite_soup L mappings css_files output_suffix soup = Inr soup'"
  shows "concat (map classes_of soup')
      = map (map (dict_get (class_dict mappings))) (concat (map classes_of soup))"
proof -
  from assms obtain s1 s2 where
    s1: "link_nodes L (css_file_mapping L css_files output_suffix) soup = Inr s1"
    and s2: "style_nodes L mappings s1 = Inr s2"
    and s3: "soup' = map (class_node (class_dict mappings)) s2"
    by (auto simp: rewrite_soup_def split: sum.splits)
  have "concat (map classes_of soup')
      = map (map (dict_get (class_dict mappings))) (concat (map classes_of s2))"
    by (simp add: s3 map_concat comp_def classes_class)
  also have "map classes_of s2 = map classes_of s1" by (rule classes_style(2) [OF s2])
  also have "map classes_of s1 = map classes_of soup" by (rule classes_link(2) [OF s1])
  finally show ?thesis .
qed

text \<open>
  The values of the \<open>class\<close> attributes of a tree, in document order, and how they are
  written: the tokens with one space between them.
\<close>

fun class_values :: "node \<Rightarrow> attr_value list" where
  "class_values (NavigableString s) = []"
| "class_values (Tag name attrs contents) =
     (case map_of attrs (py ''class'') of None \<Rightarrow> [] | Some v \<Rightarrow> [v])
     @ concat (map class_values contents)"

lemma classes_of_values: "classes_of x = map class_tokens (class_values x)"
  by (induction x rule: class_values.induct)
    (simp_all add: map_concat comp_def split: option.splits cong: map_cong)

lemma attribute_text_tokens: "attribute_text v = join_space (class_tokens v)"
  by (cases v) (simp_all add: attribute_text_def class_tokens_def)

lemma class_values_decode:
  "class_values (decode_values x) = map (\<lambda>v. AStr (attribute_text v)) (class_values x)"
  by (induction x rule: class_values.induct)
    (simp_all add: map_of_map map_concat comp_def split: option.splits cong: map_cong)

lemma class_values_written:
  "concat (map class_values (map decode_values xs))
     = map (\<lambda>tokens. AStr (join_space tokens)) (concat (map classes_of xs))"
  by (simp add: map_concat comp_def class_values_decode classes_of_values attribute_text_tokens)

text \<open>
  C5. \<open>classes_of\<close> lists, in document order, the class tokens of every element of the
  parsed tree that carries a \<open>class\<close> attribute (the list that \<open>bs4\<close> made of the
  whitespace-separated value). The document that \<open>process_html_content\<close> returns is the
  text of a tree in which the \<open>class\<close> values are, for the same elements in the same
  order, the old tokens in the same number and order, separated by one space, each replaced
  through the lookup: by the obfuscated name of a mapping whose original it is, if there is
  one, and by itself otherwise.
\<close>

theorem process_html_content_classes:
  assumes "process_html_content L content mappings css_files output_suffix = Inr doc"
  shows "\<exists>soup soup'. soup_parse L content = Inr soup
      \<and> rewrite_soup L mappings css_files output_suffix soup = Inr soup'
      \<and> doc = soup_str L (map decode_values soup')
      \<and> concat (map class_values (map decode_values soup'))
          = map (\<lambda>tokens. AStr (join_space (map (dict_get (class_dict mappings)) tokens)))
              (concat (map classes_of soup))
      \<and> (\<forall>c. (c \<notin> original ` set mappings \<longrightarrow> dict_get (class_dict mappings) c = c)
            \<and> (c \<in> original ` set mappings \<longrightarrow>
                 (\<exists>m\<in>set mappings. original m = c
                    \<and> dict_get (class_dict mappings) c = obfuscated m)))"
proof -
  from assms obtain soup soup' where
    p: "soup_parse L content = Inr soup"
    and r: "rewrite_soup L mappings css_files output_suffix soup = Inr soup'"
    and d: "doc = soup_str L (map decode_values soup')"
    by (auto simp: process_html_content_def split: sum.splits)
  have "concat (map class_values (map decode_values soup'))
      = map (\<lambda>tokens. AStr (join_space tokens)) (concat (map classes_of soup'))"
    by (rule class_values_written)
  also have "\<dots> = map (\<lambda>tokens. AStr (join_space (map (dict_get (class_dict mappings)) tokens)))
              (concat (map classes_of soup))"
    by (simp add: rewrite_soup_classes [OF r] comp_def)
  finally have "concat (map class_values (map decode_values soup'))
      = map (\<lambda>tokens. AStr (join_space (map (dict_get (class_dict mappings)) tokens)))
          (concat (map classes_of soup))" .
  with p r d dict_get_class_dict [where ms = mappings] show ?thesis by blast
qed

theorem process_html_content_classes_witness:
  "process_html_content example_lib demo_html demo_mappings [py ''site/css/style.css'']
     (py ''_obfuscated'') = Inr demo_html_rewritten
   \<and> concat (map classes_of demo_soup) = [[py ''box'', py ''keep'']]
   \<and> concat (map class_values (map decode_values demo_soup_rewritten))
       = [AStr (py ''era keep'')]"
proof -
  from process_html_content_classes [OF demo_run] obtain soup soup' where
    p: "soup_parse example_lib demo_html = Inr soup"
    and r: "rewrite_soup example_lib demo_mappings [py ''site/css/style.css'']
              (py ''_obfuscated'') soup = Inr soup'"
    and c: "concat (map class_values (map decode_values soup'))
          = map (\<lambda>tokens. AStr (join_space (map (dict_get (class_dict demo_mappings)) tokens)))
              (concat (map classes_of soup))"
    by blast
  from p have soup: "soup = demo_soup" by (simp add: example_lib_def)
  with r have soup': "soup' = demo_soup_rewritten" by (simp add: demo_rewrite)
  have a: "concat (map classes_of demo_soup) = [[py ''box'', py ''keep'']]"
    by (simp add: demo_soup_def class_tokens_def)
  have "concat (map class_values (map decode_values demo_soup_rewritten))
      = [AStr (py ''era keep'')]"
    using c unfolding soup soup' a by (simp add: demo_class_dict dict_get_def py_def)
  with a demo_run show ?thesis by simp
qed

subsection \<open>The orchestrator\<close>

definition untouched :: "stats \<Rightarrow> bool" where
  "untouched st =
     (backups_created st = [] \<and> processed_css_files st = [] \<and> processed_html_files st = [])"

lemma untouched_report: "untouched (report what file e st) = untouched st"
  by (simp add: untouched_def report_def)

lemma untouched_scan_css:
  "untouched (snd state) \<Longrightarrow> untouched (snd (scan_css_file L os fs state f))"
  by (cases state)
    (auto simp: scan_css_file_def untouched_report split: sum.splits)

lemma untouched_scan_html:
  "untouched (snd state) \<Longrightarrow> untouched (snd (scan_html_file L os fs state f))"
  by (cases state)
    (auto simp: scan_html_file_def untouched_report split: sum.splits)

lemma untouched_foldl:
  assumes "\<And>state f. P (snd state) \<Longrightarrow> P (snd (step state f))"
  shows "P (snd state) \<Longrightarrow> P (snd (foldl step state files))"
  by (induction files arbitrary: state) (simp_all add: assms)

lemma untouched_scan_classes:
  "untouched st \<Longrightarrow> untouched (snd (scan_classes L os fs css_files html_files st))"
  unfolding scan_classes_def
  by (intro untouched_foldl [where P = untouched] untouched_scan_css untouched_scan_html) simp_all

lemma backup_step_True:
  "backup_step True file st
     = Inl (TypeError ([39] @ py ''bool'' @ [39] @ py '' object is not callable''))"
  by (simp add: backup_step_def call_bool_def)

lemma process_css_file_True:
  "process_css_file L os True mappings output_suffix (st, fs) f
     = (report (py ''CSS process error: '') f
          (TypeError ([39] @ py ''bool'' @ [39] @ py '' object is not callable'')) st, fs)"
  by (simp add: process_css_file_def backup_step_True)

lemma process_html_file_True:
  "process_html_file L os True mappings css_files output_suffix (st, fs) f
     = (report (py ''HTML process error: '') f
          (TypeError ([39] @ py ''bool'' @ [39] @ py '' object is not callable'')) st, fs)"
  by (simp add: process_html_file_def backup_step_True)

lemma foldl_css_True:
  "untouched st \<Longrightarrow>
     \<exists>st'. foldl (process_css_file L os True mappings output_suffix) (st, fs) files = (st', fs)
       \<and> untouched st'"
  by (induction files arbitrary: st) (simp_all add: process_css_file_True untouched_report)

lemma foldl_html_True:
  "untouched st \<Longrightarrow>
     \<exists>st'. foldl (process_html_file L os True mappings css_files output_suffix) (st, fs) files
             = (st', fs)
       \<and> untouched st'"
  by (induction files arbitrary: st) (simp_all add: process_html_file_True untouched_report)

lemma try_True:
  "\<exists>e st. obfuscate_website_try L os fs folder_path output_suffix extensions method
       exclude_classes True empty_stats = ((e, st), fs) \<and> untouched st"
proof -
  have u0: "untouched empty_stats" by (simp add: untouched_def empty_stats_def)
  show ?thesis
  proof (cases "scan_project_files os fs folder_path (Some extensions)")
    case (Inl e)
    with u0 show ?thesis by (simp add: obfuscate_website_try_def)
  next
    case (Inr all_files)
    let ?css = "filter (\<lambda>f. endswith f (py ''.css'')) all_files"
    let ?html = "filter (\<lambda>f. endswith f (py ''.html'')) all_files"
    obtain all_classes st1 where
      sc: "scan_classes L os fs ?css ?html empty_stats = (all_classes, st1)"
      by (cases "scan_classes L os fs ?css ?html empty_stats")
    from untouched_scan_classes [OF u0, of L os fs ?css ?html] sc
    have u1: "untouched st1" by simp
    show ?thesis
    proof (cases "all_classes = {||}")
      case True
      with Inr sc u1 show ?thesis by (simp add: obfuscate_website_try_def)
    next
      case False
      show ?thesis
      proof (cases "build_class_mapping L all_classes method (Some (set exclude_classes))")
        case (Inl e)
        with Inr sc u1 False show ?thesis by (simp add: obfuscate_website_try_def)
      next
        case built: (Inr mappings)
        let ?st2 = "st1\<lparr>total_classes := length mappings, class_mappings := mappings\<rparr>"
        from u1 have "untouched ?st2" by (simp add: untouched_def)
        from foldl_css_True [OF this, of L os mappings output_suffix fs ?css]
        obtain st3 where
          s3: "foldl (process_css_file L os True mappings output_suffix) (?st2, fs) ?css = (st3, fs)"
          and u3: "untouched st3" by blast
        from foldl_html_True [OF u3, of L os mappings ?css output_suffix fs ?html]
        obtain st4 where
          s4: "foldl (process_html_file L os True mappings ?css output_suffix) (st3, fs) ?html
                 = (st4, fs)"
          and u4: "untouched st4" by blast
        from Inr sc False built s3 s4 u4 show ?thesis
          by (simp add: obfuscate_website_try_def Let_def)
      qed
    qed
  qed
qed

text \<open>
  C6 does not hold of the code. With \<open>create_backup\<close> set to true, the first
  statement of every round of the two rewriting loops raises \<open>TypeError\<close> (the name is
  the \<open>bool\<close>, not the function), which the round records as an error: whatever the
  project is, no backup is made or recorded, no output file is written and the file system
  is left as it was.
\<close>

theorem obfuscate_website_backup_true:
  "\<exists>st. obfuscate_website L os fs folder_path output_suffix extensions method exclude True
          = (Inr st, fs)
     \<and> backups_created st = [] \<and> processed_css_files st = [] \<and> processed_html_files st = []"
proof -
  let ?ext = "case extensions of None \<Rightarrow> [py ''.html'', py ''.css''] | Some e \<Rightarrow> e"
  let ?exc = "case exclude of None \<Rightarrow> [] | Some e \<Rightarrow> e"
  from try_True [of L os fs folder_path output_suffix ?ext "method" ?exc]
  obtain e st where
    t: "obfuscate_website_try L os fs folder_path output_suffix ?ext method ?exc True empty_stats
          = ((e, st), fs)"
    and u: "untouched st" by blast
  show ?thesis
  proof (cases e)
    case None
    with t u show ?thesis by (simp add: obfuscate_website_def untouched_def)
  next
    case (Some x)
    with t u show ?thesis by (simp add: obfuscate_website_def untouched_def)
  qed
qed

lemma scan_not_dir:
  "\<not> is_dir os fs folder_path \<Longrightarrow>
     scan_project_files os fs folder_path exts
       = Inl (ValueError ([39] @ folder_path @ [39] @ py '' is not a valid directory''))"
  by (simp add: scan_project_files_def Let_def)

lemma obfuscate_website_not_dir:
  "\<not> is_dir os fs folder_path \<Longrightarrow>
     obfuscate_website L os fs folder_path output_suffix extensions method exclude cb
       = (Inr (empty_stats\<lparr>errors :=
                 [[39] @ folder_path @ [39] @ py '' is not a valid directory'']\<rparr>), fs)"
  by (simp add: obfuscate_website_def obfuscate_website_try_def scan_not_dir Let_def
      empty_stats_def)

text \<open>The three method names that \<open>obfuscate_identifier\<close> knows.\<close>

definition valid_method :: "pystr \<Rightarrow> bool" where
  "valid_method m = (m = py ''shift'' \<or> m = py ''hash'' \<or> m = py ''hex'')"

lemma obfuscate_identifier_unknown:
  "\<not> valid_method m \<Longrightarrow> c \<noteq> [] \<Longrightarrow>
     obfuscate_identifier L c m
       = Inl (ValueError (py ''Unknown obfuscation method: '' @ [39] @ m @ [39]))"
  by (simp add: obfuscate_identifier_def valid_method_def)

lemma mapping_loop_unknown:
  "\<not> valid_method m \<Longrightarrow> \<exists>c\<in>set cs. c \<noteq> [] \<and> c \<notin> ex \<Longrightarrow>
     mapping_loop L m ex cs st
       = Inl (ValueError (py ''Unknown obfuscation method: '' @ [39] @ m @ [39]))"
proof (induction cs arbitrary: st)
  case Nil
  then show ?case by simp
next
  case (Cons c cs)
  obtain ms used where st: "st = (ms, used)" by (cases st)
  show ?case
  proof (cases "c = [] \<or> c \<in> ex")
    case True
    with Cons.prems have "\<exists>c\<in>set cs. c \<noteq> [] \<and> c \<notin> ex" by auto
    from Cons.IH [OF Cons.prems(1) this] True st show ?thesis by simp
  next
    case False
    with Cons.prems(1) st show ?thesis by (simp add: obfuscate_identifier_unknown)
  qed
qed

lemma build_class_mapping_unknown:
  assumes "\<not> valid_method m" "c |\<in>| all_classes" "c \<noteq> []" "c \<notin> ex"
  shows "build_class_mapping L all_classes m (Some ex)
       = Inl (ValueError (py ''Unknown obfuscation method: '' @ [39] @ m @ [39]))"
proof -
  from assms(2-4) have "\<exists>c\<in>set (sorted_list_of_fset all_classes). c \<noteq> [] \<and> c \<notin> ex"
    by auto
  from mapping_loop_unknown [OF assms(1) this] show ?thesis
    by (simp add: build_class_mapping_def)
qed

lemma obfuscate_website_returns:
  "\<exists>st fs'. obfuscate_website L os fs folder_path output_suffix extensions method exclude cb
     = (Inr st, fs')"
proof -
  let ?t = "obfuscate_website_try L os fs folder_path output_suffix
      (case extensions of None \<Rightarrow> [py ''.html'', py ''.css''] | Some e \<Rightarrow> e) method
      (case exclude of None \<Rightarrow> [] | Some e \<Rightarrow> e) cb empty_stats"
  obtain e st fs' where "?t = ((e, st), fs')" by (cases ?t) auto
  then show ?thesis by (cases e) (simp_all add: obfuscate_website_def)
qed

text \<open>
  C7, as the code has it. \<open>obfuscate_website\<close> never raises: \<open>except Exception\<close>
  around its whole body turns an exception into an entry of \<open>errors\<close> in the statistics
  that it returns. If the folder is not a directory, nothing is scanned or written and the
  statistics hold only the message of \<open>scan_project_files\<close>. An unknown method name is
  noticed when the first class name that is neither empty nor excluded is transformed,
  after all files were scanned: then no file is written, and the statistics (with the scan
  errors) get the message of \<open>obfuscate_identifier\<close>.
\<close>

theorem obfuscate_website_fatal_errors:
  "(\<exists>st fs'. obfuscate_website L os fs folder_path output_suffix (Some extensions) method
        (Some exclude_classes) cb = (Inr st, fs'))
   \<and> (\<not> is_dir os fs folder_path \<longrightarrow>
        obfuscate_website L os fs folder_path output_suffix (Some extensions) method
            (Some exclude_classes) cb
          = (Inr (empty_stats\<lparr>errors :=
                    [[39] @ folder_path @ [39] @ py '' is not a valid directory'']\<rparr>), fs))
   \<and> (\<not> valid_method method \<longrightarrow>
        scan_project_files os fs folder_path (Some extensions) = Inr all_files \<longrightarrow>
        scan_classes L os fs (filter (\<lambda>f. endswith f (py ''.css'')) all_files)
            (filter (\<lambda>f. endswith f (py ''.html'')) all_files) empty_stats
          = (all_classes, st1) \<longrightarrow>
        (\<exists>c. c |\<in>| all_classes \<and> c \<noteq> [] \<and> c \<notin> set exclude_classes) \<longrightarrow>
        obfuscate_website L os fs folder_path output_suffix (Some extensions) method
            (Some exclude_classes) cb
          = (Inr (st1\<lparr>errors := errors st1
                    @ [py ''Unknown obfuscation method: '' @ [39] @ method @ [39]]\<rparr>), fs))"
proof (intro conjI impI)
  show "\<exists>st fs'. obfuscate_website L os fs folder_path output_suffix (Some extensions) method
        (Some exclude_classes) cb = (Inr st, fs')"
    by (rule obfuscate_website_returns)
next
  assume "\<not> is_dir os fs folder_path"
  then show "obfuscate_website L os fs folder_path output_suffix (Some extensions) method
            (Some exclude_classes) cb
          = (Inr (empty_stats\<lparr>errors :=
                    [[39] @ folder_path @ [39] @ py '' is not a valid directory'']\<rparr>), fs)"
    by (rule obfuscate_website_not_dir)
next
  assume m: "\<not> valid_method method"
    and files: "scan_project_files os fs folder_path (Some extensions) = Inr all_files"
    and sc: "scan_classes L os fs (filter (\<lambda>f. endswith f (py ''.css'')) all_files)
            (filter (\<lambda>f. endswith f (py ''.html'')) all_files) empty_stats
          = (all_classes, st1)"
    and c: "\<exists>c. c |\<in>| all_classes \<and> c \<noteq> [] \<and> c \<notin> set exclude_classes"
  from c obtain c where c': "c |\<in>| all_classes" "c \<noteq> []" "c \<notin> set exclude_classes" by blast
  then have ne: "all_classes \<noteq> {||}" by auto
  from build_class_mapping_unknown [OF m c']
  have "build_class_mapping L all_classes method (Some (set exclude_classes))
       = Inl (ValueError (py ''Unknown obfuscation method: '' @ [39] @ method @ [39]))" .
  with files sc ne
  show "obfuscate_website L os fs folder_path output_suffix (Some extensions) method
            (Some exclude_classes) cb
          = (Inr (st1\<lparr>errors := errors st1
                    @ [py ''Unknown obfuscation method: '' @ [39] @ method @ [39]]\<rparr>), fs)"
    by (simp add: obfuscate_website_def obfuscate_website_try_def Let_def)
qed

text \<open>
  An example project: a file system that is a list of paths with their contents below the
  one directory \<open>site\<close>, and the parsers' results for its two files.
\<close>

definition demo_os :: "(pystr \<times> pystr) list pyos" where
  "demo_os =
     \<lparr>is_dir = (\<lambda>fs p. p = py ''site''),
      rglob = (\<lambda>fs folder pattern.
                 Inr (filter (\<lambda>p. take (Suc (length folder)) p = folder @ py ''/''
                                    \<and> endswith p (tl pattern)) (map fst fs))),
      read_text = (\<lambda>fs p. case map_of fs p of
                              None \<Rightarrow> Inl (OtherError (py ''No such file or directory''))
                            | Some content \<Rightarrow> Inr content),
      write_text = (\<lambda>fs p content. (None, AList.update p content fs)),
      copy2 = (\<lambda>fs src dst. case map_of fs src of
                                None \<Rightarrow> (Some (OtherError (py ''No such file or directory'')), fs)
                              | Some content \<Rightarrow> (None, AList.update dst content fs))\<rparr>"

definition demo_fs :: "(pystr \<times> pystr) list" where
  "demo_fs =
     [(py ''site/index.html'', py ''<link rel=stylesheet href=style.css><div class=box></div>''),
      (py ''site/style.css'', py ''.box{}'')]"

definition demo_page :: soup where
  "demo_page =
     [Tag (py ''html'') []
        [Tag (py ''head'') []
           [Tag (py ''link'')
              [(py ''rel'', AList [py ''stylesheet'']), (py ''href'', AStr (py ''style.css''))] []],
         Tag (py ''body'') [] [Tag (py ''div'') [(py ''class'', AList [py ''box''])] []]]]"

definition demo_lib :: pylib where
  "demo_lib =
     example_lib
       \<lparr>parse_stylesheet :=
          (\<lambda>css. if css = py ''.box{}''
                  then Inr [QualifiedRule [LiteralToken (py ''.''), IdentToken (py ''box'')]]
                  else Inr []),
        soup_parse :=
          (\<lambda>html. if html = py ''<link rel=stylesheet href=style.css><div class=box></div>''
                   then Inr demo_page else Inr [])\<rparr>"

text \<open>
  The claim as stated fails: for a folder that is not a directory the call returns, and
  the error is an entry of the statistics.
\<close>

theorem obfuscate_website_swallows_error:
  "obfuscate_website demo_lib demo_os demo_fs (py ''nowhere'') (py ''_obfuscated'') None
     (py ''shift'') None False
   = (Inr (empty_stats\<lparr>errors := [[39] @ py ''nowhere'' @ [39] @ py '' is not a valid directory'']\<rparr>),
      demo_fs)"
  by (simp add: obfuscate_website_def obfuscate_website_try_def scan_project_files_def
      demo_os_def empty_stats_def Let_def)

lemma demo_scan_files:
  "scan_project_files demo_os demo_fs (py ''site'') (Some [py ''.html'', py ''.css''])
     = Inr [py ''site/index.html'', py ''site/style.css'']"
  by (simp add: scan_project_files_def demo_os_def demo_fs_def endswith_def py_def)


lemma demo_filters:
  "filter (\<lambda>f. endswith f (py ''.css'')) [py ''site/index.html'', py ''site/style.css'']
     = [py ''site/style.css'']"
  "filter (\<lambda>f. endswith f (py ''.html'')) [py ''site/index.html'', py ''site/style.css'']
     = [py ''site/index.html'']"
  by (simp_all add: endswith_def py_def)

lemma demo_extract_css:
  "extract_classes_from_css demo_lib (py ''.box{}'') = Inr {|py ''box''|}"
  by (simp add: extract_classes_from_css_def demo_lib_def)

lemma demo_extract_html:
  "extract_classes_from_html demo_lib
     (py ''<link rel=stylesheet href=style.css><div class=box></div>'') = Inr {|py ''box''|}"
  by (simp add: extract_classes_from_html_def demo_lib_def demo_page_def class_tokens_def)

lemma demo_scan_classes:
  "scan_classes demo_lib demo_os demo_fs [py ''site/style.css''] [py ''site/index.html'']
     empty_stats = ({|py ''box''|}, empty_stats)"
  by (simp add: scan_classes_def scan_css_file_def scan_html_file_def demo_extract_css
      demo_extract_html demo_os_def demo_fs_def)

theorem obfuscate_website_fatal_errors_witness:
  "obfuscate_website demo_lib demo_os demo_fs (py ''site'') (py ''_obfuscated'')
       (Some [py ''.html'', py ''.css'']) (py ''rot13'') (Some []) False
     = (Inr (empty_stats\<lparr>errors :=
               [py ''Unknown obfuscation method: '' @ [39] @ py ''rot13'' @ [39]]\<rparr>), demo_fs)
   \<and> obfuscate_website demo_lib demo_os demo_fs (py ''nowhere'') (py ''_obfuscated'')
       (Some [py ''.html'', py ''.css'']) (py ''rot13'') (Some []) False
     = (Inr (empty_stats\<lparr>errors :=
               [[39] @ py ''nowhere'' @ [39] @ py '' is not a valid directory'']\<rparr>), demo_fs)"
proof -
  have m: "\<not> valid_method (py ''rot13'')" by (simp add: valid_method_def)
  have d: "\<not> is_dir demo_os demo_fs (py ''nowhere'')" by (simp add: demo_os_def)
  have c: "\<exists>c. c |\<in>| {|py ''box''|} \<and> c \<noteq> [] \<and> c \<notin> set []" by simp
  have e: "errors empty_stats = []" by (simp add: empty_stats_def)
  note t1 = obfuscate_website_fatal_errors [of demo_lib demo_os demo_fs "py ''site''"
      "py ''_obfuscated''" "[py ''.html'', py ''.css'']" "py ''rot13''" "[]" False
      "[py ''site/index.html'', py ''site/style.css'']" "{|py ''box''|}" empty_stats]
  note t2 = obfuscate_website_fatal_errors [of demo_lib demo_os demo_fs "py ''nowhere''"
      "py ''_obfuscated''" "[py ''.html'', py ''.css'']" "py ''rot13''" "[]" False]
  from t1 have "\<not> valid_method (py ''rot13'') \<longrightarrow>
        scan_project_files demo_os demo_fs (py ''site'') (Some [py ''.html'', py ''.css''])
          = Inr [py ''site/index.html'', py ''site/style.css''] \<longrightarrow>
        scan_classes demo_lib demo_os demo_fs
            (filter (\<lambda>f. endswith f (py ''.css'')) [py ''site/index.html'', py ''site/style.css''])
            (filter (\<lambda>f. endswith f (py ''.html'')) [py ''site/index.html'', py ''site/style.css''])
            empty_stats
          = ({|py ''box''|}, empty_stats) \<longrightarrow>
        (\<exists>c. c |\<in>| {|py ''box''|} \<and> c \<noteq> [] \<and> c \<notin> set []) \<longrightarrow>
        obfuscate_website demo_lib demo_os demo_fs (py ''site'') (py ''_obfuscated'')
            (Some [py ''.html'', py ''.css'']) (py ''rot13'') (Some []) False
          = (Inr (empty_stats\<lparr>errors := errors empty_stats
                    @ [py ''Unknown obfuscation method: '' @ [39] @ py ''rot13'' @ [39]]\<rparr>),
             demo_fs)"
    by (rule conjunct2 [THEN conjunct2])
  from this [unfolded demo_filters] m demo_scan_files demo_scan_classes c
  have "obfuscate_website demo_lib demo_os demo_fs (py ''site'') (py ''_obfuscated'')
            (Some [py ''.html'', py ''.css'']) (py ''rot13'') (Some []) False
          = (Inr (empty_stats\<lparr>errors := errors empty_stats
                    @ [py ''Unknown obfuscation method: '' @ [39] @ py ''rot13'' @ [39]]\<rparr>),
             demo_fs)"
    by blast
  then have "obfuscate_website demo_lib demo_os demo_fs (py ''site'') (py ''_obfuscated'')
       (Some [py ''.html'', py ''.css'']) (py ''rot13'') (Some []) False
     = (Inr (empty_stats\<lparr>errors :=
               [py ''Unknown obfuscation method: '' @ [39] @ py ''rot13'' @ [39]]\<rparr>), demo_fs)"
    by (simp only: e append_Nil)
  moreover from t2 d
  have "obfuscate_website demo_lib demo_os demo_fs (py ''nowhere'') (py ''_obfuscated'')
       (Some [py ''.html'', py ''.css'']) (py ''rot13'') (Some []) False
     = (Inr (empty_stats\<lparr>errors :=
               [[39] @ py ''nowhere'' @ [39] @ py '' is not a valid directory'']\<rparr>), demo_fs)"
    by blast
  ultimately show ?thesis by simp
qed

end
